theory Spec2Isabelle
  imports Complex_Main "HOL-Library.Word" "HOL-Library.Sublist"
begin

section \<open>The program\<close>

subsection \<open>JavaScript numbers holding integers\<close>

text \<open>
  The configuration fields of the program are TypeScript \<open>number\<close>s that hold
  integers (grid sizes, frame indices, pixel offsets). They are modelled as \<open>int\<close>;
  a double that need not be integral (a cell size, the frame interval, the time stamp)
  is modelled by its value, a \<open>rat\<close>. Sums, differences and products of the integers
  in play are exact in doubles; the divisions of the playback clock are rounded, see
  below.

  \<open>a % b\<close> is the remainder of the division truncated towards zero (it has the sign of
  the dividend) and is \<open>NaN\<close> for \<open>b = 0\<close>; \<open>Math.floor(a / b)\<close> is the floor of the
  exact quotient and is not finite for \<open>b = 0\<close>. Both non-finite outcomes are \<open>None\<close>.
\<close>

definition js_rem :: "int \<Rightarrow> int \<Rightarrow> int option" where
  "js_rem a b = (if b = 0 then None else Some (sgn a * (\<bar>a\<bar> mod \<bar>b\<bar>)))"

definition js_floor_div :: "int \<Rightarrow> int \<Rightarrow> int option" where
  "js_floor_div a b =
     (if b = 0 then None else Some \<lfloor>(of_int a :: rat) / of_int b\<rfloor>)"

text \<open>\<open>xs[i]\<close> on an array: \<open>undefined\<close> (here \<open>None\<close>) outside the array.\<close>

definition js_index :: "'a list \<Rightarrow> int \<Rightarrow> 'a option" where
  "js_index xs i = (if 0 \<le> i \<and> i < int (length xs) then Some (xs ! nat i) else None)"

subsection \<open>Data model (types.ts)\<close>

datatype direction = Row | Column

type_synonym offset = "int \<times> int"

record SpriteConfig =
  rows :: int
  cols :: int
  totalFrames :: int
  fps :: int
  scale :: int
  transparent :: "string option"
  autoTransparent :: bool
  direction :: direction
  frameOffsets :: "int \<rightharpoonup> offset"
  excludedFrames :: "int list"

record ImageDimensions =
  width :: nat
  height :: nat

text \<open>\<open>INITIAL_CONFIG\<close> of the application.\<close>

definition INITIAL_CONFIG :: SpriteConfig where
  "INITIAL_CONFIG = \<lparr> rows = 4, cols = 4, totalFrames = 16, fps = 12, scale = 1,
     transparent = None, autoTransparent = True, direction = Row,
     frameOffsets = Map.empty, excludedFrames = [] \<rparr>"

subsection \<open>Grid addressing\<close>

text \<open>
  The same row/column computation is written out in the split editor, the modal editor,
  the preview player and the exporter:
  \<^verbatim>\<open>if (config.direction === 'column') { row = index % config.rows;
        col = Math.floor(index / config.rows); }
  else { col = index % config.cols; row = Math.floor(index / config.cols); }\<close>
  The result is the pair \<open>(row, col)\<close>.
\<close>

definition frame_cell :: "SpriteConfig \<Rightarrow> int \<Rightarrow> (int \<times> int) option" where
  "frame_cell config index =
     (if direction config = Column then
        (case (js_rem index (rows config), js_floor_div index (rows config)) of
           (Some row, Some col) \<Rightarrow> Some (row, col)
         | _ \<Rightarrow> None)
      else
        (case (js_floor_div index (cols config), js_rem index (cols config)) of
           (Some row, Some col) \<Rightarrow> Some (row, col)
         | _ \<Rightarrow> None))"

subsection \<open>Enumerating the frames that are not excluded\<close>

text \<open>
  The preview player (\<open>getValidFrames\<close>) and the exporter (\<open>framesToRender\<close>) run the
  same loop:
  \<^verbatim>\<open>for (let i = 0; i < config.totalFrames; i++)
    if (!config.excludedFrames.includes(i)) frames.push(i);\<close>
  Both also guard against a missing \<open>excludedFrames\<close> array, which the type of the
  configuration excludes.
\<close>

function frames_loop :: "SpriteConfig \<Rightarrow> int \<Rightarrow> int list \<Rightarrow> int list" where
  "frames_loop config i frames =
     (if i < totalFrames config then
        frames_loop config (i + 1)
          (if i \<notin> set (excludedFrames config) then frames @ [i] else frames)
      else frames)"
  by pat_completeness auto
termination
  by (relation "measure (\<lambda>(config, i, frames). nat (totalFrames config - i))") auto

declare frames_loop.simps [simp del]

definition getValidFrames :: "SpriteConfig \<Rightarrow> int list" where
  "getValidFrames config = frames_loop config 0 []"

definition framesToRender :: "SpriteConfig \<Rightarrow> int list" where
  "framesToRender config = frames_loop config 0 []"

subsection \<open>Double-precision division\<close>

text \<open>
  The time stamp and the frame interval are doubles, and \<open>a / b\<close> on doubles is the exact
  quotient rounded to the nearest double, ties to the even significand. A finite double
  other than zero is \<open>m * 2 ^ e\<close> with a significand \<open>m\<close> of at most 53 bits and
  \<open>-1074 \<le> e \<le> 971\<close>. For a positive \<open>q\<close> the exponent of the unit in the last place is
  the least \<open>e\<close> from \<open>-1074\<close> on with \<open>q < 2 ^ (e + 53)\<close>; there is none from \<open>2 ^ 1024\<close> on,
  where the quotient overflows.
\<close>

fun ulp_search :: "nat \<Rightarrow> int \<Rightarrow> rat \<Rightarrow> int option" where
  "ulp_search 0 e q = None"
| "ulp_search (Suc n) e q = (if q < 2 powi (e + 53) then Some e else ulp_search n (e + 1) q)"

definition ulp_exp :: "rat \<Rightarrow> int option" where
  "ulp_exp q = ulp_search 2046 (- 1074) q"

definition round_half_even :: "rat \<Rightarrow> int" where
  "round_half_even r =
     (let f = \<lfloor>r\<rfloor>; d = r - of_int f
      in if d < 1 / 2 then f else if 1 / 2 < d then f + 1 else if even f then f else f + 1)"

text \<open>The nearest double of a rational; \<open>None\<close> when it is not finite.\<close>

definition round_double :: "rat \<Rightarrow> rat option" where
  "round_double q =
     (if q = 0 then Some 0
      else (case ulp_exp \<bar>q\<bar> of
              None \<Rightarrow> None
            | Some e \<Rightarrow>
                (let r = of_int (round_half_even (\<bar>q\<bar> / 2 powi e)) * 2 powi e
                 in if 2 powi 1024 \<le> r then None else Some (sgn q * r))))"

text \<open>\<open>a / b\<close> on finite doubles: not finite (\<open>Infinity\<close> or \<open>NaN\<close>) for \<open>b = 0\<close>.\<close>

definition js_div :: "rat \<Rightarrow> rat \<Rightarrow> rat option" where
  "js_div a b = (if b = 0 then None else round_double (a / b))"

subsection \<open>Playback clock (PreviewPlayer)\<close>

text \<open>
  One tick of \<open>animate(time)\<close>, up to the choice of the frame to show:
  \<^verbatim>\<open>const frameInterval = 1000 / config.fps;
  const validFrames = getValidFrames();
  if (validFrames.length === 0) { clear the canvas; return; }
  const stepIndex = Math.floor(time / frameInterval) % validFrames.length;
  const actualFrameIndex = validFrames[stepIndex];\<close>
  \<open>time\<close> is the time stamp of the animation callback, in milliseconds. Both divisions
  are divisions of doubles. With a frame rate of 0 the interval is \<open>Infinity\<close> and the
  quotient \<open>time / frameInterval\<close> is 0; a quotient that is not finite gives no index.
\<close>

datatype tick = RenderNothing | ShowFrame int | ShowUndefined

definition tick_quotient :: "int \<Rightarrow> rat \<Rightarrow> rat option" where
  "tick_quotient fps_value time =
     (case js_div 1000 (of_int fps_value) of
        None \<Rightarrow> Some 0
      | Some frameInterval \<Rightarrow> js_div time frameInterval)"

definition animate_frame :: "SpriteConfig \<Rightarrow> rat \<Rightarrow> tick" where
  "animate_frame config time =
     (let validFrames = getValidFrames config
      in if length validFrames = 0 then RenderNothing
         else (case tick_quotient (fps config) time of
                 None \<Rightarrow> ShowUndefined
               | Some q \<Rightarrow>
                   (case js_rem \<lfloor>q\<rfloor> (int (length validFrames)) of
                      None \<Rightarrow> ShowUndefined
                    | Some stepIndex \<Rightarrow>
                        (case js_index validFrames stepIndex of
                           None \<Rightarrow> ShowUndefined
                         | Some actualFrameIndex \<Rightarrow> ShowFrame actualFrameIndex))))"

subsection \<open>Chroma keying (gifBuilder)\<close>

type_synonym byte = "8 word"

text \<open>
  The pixel data of a canvas is a \<open>Uint8ClampedArray\<close>: four bytes R, G, B, A per pixel,
  row by row. Reading it outside its length gives \<open>undefined\<close> (here \<open>None\<close>), writing
  outside its length does nothing, which is what \<open>xs[i := v]\<close> does as well.
\<close>

definition rd :: "byte list \<Rightarrow> nat \<Rightarrow> byte option" where
  "rd data i = (if i < length data then Some (data ! i) else None)"

definition KEY_COLOR_RGB :: "byte list" where
  "KEY_COLOR_RGB = [255, 0, 255]"

definition KEY_COLOR_HEX :: nat where
  "KEY_COLOR_HEX = 0xff00ff"

definition tolerance :: int where
  "tolerance = 20"

text \<open>
  \<open>Math.abs(c - cBg) < tolerance\<close> and \<open>a < 10\<close> on values read from the array; a
  comparison that involves \<open>undefined\<close> is false.
\<close>

definition abs_diff_lt :: "byte option \<Rightarrow> byte option \<Rightarrow> int \<Rightarrow> bool" where
  "abs_diff_lt c cBg t =
     (case (c, cBg) of (Some u, Some v) \<Rightarrow> \<bar>uint u - uint v\<bar> < t | _ \<Rightarrow> False)"

definition js_lt :: "byte option \<Rightarrow> int \<Rightarrow> bool" where
  "js_lt a t = (case a of Some u \<Rightarrow> uint u < t | None \<Rightarrow> False)"

text \<open>
  The loop of \<open>applyChromaKey\<close>:
  \<^verbatim>\<open>for (let i = 0; i < data.length; i += 4) {
    const r = data[i], g = data[i + 1], b = data[i + 2], a = data[i + 3];
    if ((Math.abs(r - rBg) < tolerance && Math.abs(g - gBg) < tolerance &&
         Math.abs(b - bBg) < tolerance) || a < 10) {
      data[i] = KEY_COLOR_RGB[0]; data[i + 1] = KEY_COLOR_RGB[1];
      data[i + 2] = KEY_COLOR_RGB[2]; data[i + 3] = 255; } }\<close>
\<close>

function chroma_loop ::
  "byte option \<Rightarrow> byte option \<Rightarrow> byte option \<Rightarrow> nat \<Rightarrow> byte list \<Rightarrow> byte list" where
  "chroma_loop rBg gBg bBg i data =
     (if i < length data then
        (let r = rd data i; g = rd data (i + 1); b = rd data (i + 2); a = rd data (i + 3)
         in chroma_loop rBg gBg bBg (i + 4)
              (if (abs_diff_lt r rBg tolerance \<and> abs_diff_lt g gBg tolerance
                     \<and> abs_diff_lt b bBg tolerance) \<or> js_lt a 10
               then data[i := KEY_COLOR_RGB ! 0, i + 1 := KEY_COLOR_RGB ! 1,
                         i + 2 := KEY_COLOR_RGB ! 2, i + 3 := 255]
               else data))
      else data)"
  by pat_completeness auto
termination
  by (relation "measure (\<lambda>(rBg, gBg, bBg, i, data). length data - i)") auto

declare chroma_loop.simps [simp del]

text \<open>
  \<open>applyChromaKey\<close> on the pixel data it reads with \<open>getImageData\<close> and writes back with
  \<open>putImageData\<close>: the reference colour is the top-left pixel, sampled before the loop.
\<close>

definition applyChromaKey_data :: "byte list \<Rightarrow> byte list" where
  "applyChromaKey_data data =
     (let rBg = rd data 0; gBg = rd data 1; bBg = rd data 2
      in chroma_loop rBg gBg bBg 0 data)"

text \<open>The four bytes of pixel \<open>p\<close> of a buffer.\<close>

definition pixel_bytes :: "byte list \<Rightarrow> nat \<Rightarrow> byte list" where
  "pixel_bytes data p = take 4 (drop (4 * p) data)"

text \<open>The condition of the loop for the pixel that starts at byte \<open>i\<close>.\<close>

definition keyed ::
  "byte option \<Rightarrow> byte option \<Rightarrow> byte option \<Rightarrow> byte list \<Rightarrow> nat \<Rightarrow> bool" where
  "keyed rBg gBg bBg data i =
     ((abs_diff_lt (rd data i) rBg tolerance \<and> abs_diff_lt (rd data (i + 1)) gBg tolerance
         \<and> abs_diff_lt (rd data (i + 2)) bBg tolerance) \<or> js_lt (rd data (i + 3)) 10)"

text \<open>
  The keying condition in the words of the specification: every channel is within the
  tolerance 20 of the reference colour (the top-left pixel), or the alpha is below the
  near-zero threshold.
\<close>

definition spec_should_key :: "byte list \<Rightarrow> nat \<Rightarrow> bool" where
  "spec_should_key data p \<longleftrightarrow>
     (\<bar>uint (data ! (4 * p)) - uint (data ! 0)\<bar> \<le> 20
        \<and> \<bar>uint (data ! (4 * p + 1)) - uint (data ! 1)\<bar> \<le> 20
        \<and> \<bar>uint (data ! (4 * p + 2)) - uint (data ! 2)\<bar> \<le> 20)
     \<or> uint (data ! (4 * p + 3)) < 10"

subsection \<open>Canvas and source image\<close>

text \<open>
  A pixel is its four bytes R, G, B, A. A decoded image and a canvas are a width, a
  height and the pixels row by row. The pixel data of a canvas, as \<open>getImageData\<close>
  returns it, is the concatenation of the pixels' bytes.
\<close>

type_synonym pixel = "byte \<times> byte \<times> byte \<times> byte"

record Image =
  im_width :: nat
  im_height :: nat
  im_pixels :: "pixel list"

record Canvas =
  cv_width :: nat
  cv_height :: nat
  cv_pixels :: "pixel list"

definition transparent_black :: pixel where
  "transparent_black = (0, 0, 0, 0)"

definition white :: pixel where
  "white = (255, 255, 255, 255)"

text \<open>
  \<open>canvas.width = w; canvas.height = h\<close>: the attributes are whole numbers, a fractional
  value assigned to them is truncated, and assigning them resets the canvas to
  transparent black. The values assigned here are cell sizes, which are not negative.
\<close>

definition canvas_dim :: "rat \<Rightarrow> nat" where
  "canvas_dim q = nat \<lfloor>q\<rfloor>"

definition set_canvas_size :: "rat \<Rightarrow> rat \<Rightarrow> Canvas" where
  "set_canvas_size w h =
     \<lparr> cv_width = canvas_dim w, cv_height = canvas_dim h,
       cv_pixels = replicate (canvas_dim w * canvas_dim h) transparent_black \<rparr>"

text \<open>
  \<open>ctx.clearRect(0, 0, frameWidth, frameHeight)\<close> and, with \<open>fillStyle = '#ffffff'\<close>,
  \<open>ctx.fillRect(0, 0, frameWidth, frameHeight)\<close>: the rectangle covers the whole canvas,
  whose size is the truncated frame size.
\<close>

definition clearRect :: "Canvas \<Rightarrow> Canvas" where
  "clearRect canvas =
     canvas\<lparr>cv_pixels := replicate (length (cv_pixels canvas)) transparent_black\<rparr>"

definition fillRect_white :: "Canvas \<Rightarrow> Canvas" where
  "fillRect_white canvas = canvas\<lparr>cv_pixels := replicate (length (cv_pixels canvas)) white\<rparr>"

text \<open>
  \<open>ctx.drawImage(image, sx, sy, sw, sh, 0, 0, sw, sh)\<close>: the destination rectangle has the
  size of the source rectangle, so canvas pixel \<open>(x, y)\<close> shows the unit square of the
  image at \<open>(sx + x, sy + y)\<close>. The canvas clips the source rectangle to the image and
  the destination rectangle with it: a canvas pixel whose square does not meet the image
  is left as it was. Where the square meets the image, the new pixel is what the
  browser's resampling and blending make of the image there and of the old pixel; this
  is the parameter \<open>paint\<close>. Nothing is drawn for an empty source rectangle. The sizes
  passed here are cell sizes, which are not negative.
\<close>

definition drawImage ::
  "(Image \<Rightarrow> rat \<Rightarrow> rat \<Rightarrow> pixel \<Rightarrow> pixel) \<Rightarrow> Image \<Rightarrow> rat \<Rightarrow> rat \<Rightarrow> rat \<Rightarrow> rat
     \<Rightarrow> Canvas \<Rightarrow> Canvas" where
  "drawImage paint img sx sy sw sh canvas =
     (if sw = 0 \<or> sh = 0 then canvas
      else canvas\<lparr>cv_pixels :=
             map (\<lambda>p. let x = p mod cv_width canvas; y = p div cv_width canvas;
                          u = sx + of_nat x; v = sy + of_nat y;
                          old = cv_pixels canvas ! p
                      in if of_nat x < sw \<and> of_nat y < sh
                            \<and> - 1 < u \<and> u < of_nat (im_width img)
                            \<and> - 1 < v \<and> v < of_nat (im_height img)
                         then paint img u v old else old)
               [0..<length (cv_pixels canvas)]\<rparr>)"

definition getImageData :: "Canvas \<Rightarrow> byte list" where
  "getImageData canvas = concat (map (\<lambda>(r, g, b, a). [r, g, b, a]) (cv_pixels canvas))"

fun pixels_of :: "byte list \<Rightarrow> pixel list" where
  "pixels_of (r # g # b # a # rest) = (r, g, b, a) # pixels_of rest"
| "pixels_of _ = []"

definition putImageData :: "Canvas \<Rightarrow> byte list \<Rightarrow> Canvas" where
  "putImageData canvas data = canvas\<lparr>cv_pixels := pixels_of data\<rparr>"

subsection \<open>Compositing a frame\<close>

text \<open>
  The source rectangle of a frame, as the exporter and the preview player compute it:
  \<^verbatim>\<open>const offset = config.frameOffsets?.[index] || { x: 0, y: 0 };
  const sourceX = (col * frameWidth) - offset.x;
  const sourceY = (row * frameHeight) - offset.y;
  ctx.drawImage(image, sourceX, sourceY, frameWidth, frameHeight,
                0, 0, frameWidth, frameHeight);\<close>
  With a row or column that is not finite no rectangle results, and \<open>drawImage\<close> draws
  nothing.
\<close>

definition frame_offset :: "SpriteConfig \<Rightarrow> int \<Rightarrow> offset" where
  "frame_offset config index =
     (case frameOffsets config index of None \<Rightarrow> (0, 0) | Some off \<Rightarrow> off)"

definition source_rect ::
  "SpriteConfig \<Rightarrow> rat \<Rightarrow> rat \<Rightarrow> int \<Rightarrow> (rat \<times> rat \<times> rat \<times> rat) option" where
  "source_rect config frameWidth frameHeight index =
     (case frame_cell config index of
        None \<Rightarrow> None
      | Some (row, col) \<Rightarrow>
          (let off = frame_offset config index;
               sourceX = of_int col * frameWidth - of_int (fst off);
               sourceY = of_int row * frameHeight - of_int (snd off)
           in Some (sourceX, sourceY, frameWidth, frameHeight)))"

text \<open>
  The exporter's drawing of one frame on its canvas: clear, fill with white when
  \<open>autoTransparent\<close> is set, draw the source rectangle.
\<close>

definition composite_frame ::
  "(Image \<Rightarrow> rat \<Rightarrow> rat \<Rightarrow> pixel \<Rightarrow> pixel) \<Rightarrow> Image \<Rightarrow> SpriteConfig \<Rightarrow> rat \<Rightarrow> rat
     \<Rightarrow> Canvas \<Rightarrow> int \<Rightarrow> Canvas" where
  "composite_frame paint img config frameWidth frameHeight canvas index =
     (let c1 = clearRect canvas;
          c2 = (if autoTransparent config then fillRect_white c1 else c1)
      in case source_rect config frameWidth frameHeight index of
           None \<Rightarrow> c2
         | Some (sx, sy, sw, sh) \<Rightarrow> drawImage paint img sx sy sw sh c2)"

text \<open>
  The preview player sizes its canvas to the frame on every tick, clears it and draws
  the active frame. When the comparison is switched on and the original image is
  complete, it goes on to draw a divider and, clipped to the right of the divider, the
  same cell of the original image, without the offset:
  \<^verbatim>\<open>if (showCompare && compareImg && compareImg.complete) {
    const splitX = (frameWidth * sliderPos) / 100;
    ctx.fillStyle = "#00e5ff";
    ctx.fillRect(splitX - 1, 0, 2, frameHeight);
    ctx.rect(splitX, 0, frameWidth - splitX, frameHeight);
    ctx.clip();
    ctx.drawImage(compareImg, col * frameWidth, row * frameHeight,
                  frameWidth, frameHeight, 0, 0, frameWidth, frameHeight);
  }\<close>
  The original image is absent or not yet complete (\<open>NoCompare\<close>), complete but failed
  to load (\<open>BrokenCompare\<close>: \<open>drawImage\<close> raises, after the divider has been drawn), or
  loaded.
\<close>

datatype compare_image = NoCompare | BrokenCompare | LoadedCompare Image

definition cyan :: pixel where
  "cyan = (0, 229, 255, 255)"

text \<open>
  The divider and the clipping region are vertical bands over the full height of the
  canvas. \<open>coverage x a b\<close> is the part of the pixel column \<open>x\<close> that lies in the band from
  \<open>a\<close> to \<open>b\<close>. A pixel outside the band keeps its value, a pixel inside takes the new
  one, and what a pixel on the edge of the band becomes is the browser's anti-aliasing,
  the parameter \<open>mix\<close>.
\<close>

definition coverage :: "nat \<Rightarrow> rat \<Rightarrow> rat \<Rightarrow> rat" where
  "coverage x a b = max 0 (min (of_nat x + 1) b - max (of_nat x) a)"

definition covered :: "(rat \<Rightarrow> pixel \<Rightarrow> pixel \<Rightarrow> pixel) \<Rightarrow> rat \<Rightarrow> pixel \<Rightarrow> pixel \<Rightarrow> pixel" where
  "covered mix c new old = (if c \<le> 0 then old else if 1 \<le> c then new else mix c new old)"

text \<open>\<open>ctx.fillRect(a, 0, b - a, frameHeight)\<close> with an opaque fill colour.\<close>

definition fillRect_band ::
  "(rat \<Rightarrow> pixel \<Rightarrow> pixel \<Rightarrow> pixel) \<Rightarrow> pixel \<Rightarrow> rat \<Rightarrow> rat \<Rightarrow> Canvas \<Rightarrow> Canvas" where
  "fillRect_band mix colour a b canvas =
     canvas\<lparr>cv_pixels :=
       map (\<lambda>p. covered mix (coverage (p mod cv_width canvas) a b) colour (cv_pixels canvas ! p))
         [0..<length (cv_pixels canvas)]\<rparr>"

text \<open>
  What was drawn on \<open>canvas\<close> to give \<open>drawn\<close>, while the clipping region was the band from
  \<open>a\<close> to \<open>b\<close>.
\<close>

definition clip_band ::
  "(rat \<Rightarrow> pixel \<Rightarrow> pixel \<Rightarrow> pixel) \<Rightarrow> rat \<Rightarrow> rat \<Rightarrow> Canvas \<Rightarrow> Canvas \<Rightarrow> Canvas" where
  "clip_band mix a b drawn canvas =
     canvas\<lparr>cv_pixels :=
       map (\<lambda>p. covered mix (coverage (p mod cv_width canvas) a b)
                  (cv_pixels drawn ! p) (cv_pixels canvas ! p))
         [0..<length (cv_pixels canvas)]\<rparr>"

definition preview_frame ::
  "(Image \<Rightarrow> rat \<Rightarrow> rat \<Rightarrow> pixel \<Rightarrow> pixel) \<Rightarrow> (rat \<Rightarrow> pixel \<Rightarrow> pixel \<Rightarrow> pixel) \<Rightarrow> Image
     \<Rightarrow> compare_image \<Rightarrow> bool \<Rightarrow> rat \<Rightarrow> SpriteConfig \<Rightarrow> ImageDimensions \<Rightarrow> int \<Rightarrow> Canvas" where
  "preview_frame paint mix img compareImg showCompare sliderPos config dimensions
       actualFrameIndex =
     (let frameWidth = of_nat (width dimensions) / of_int (cols config);
          frameHeight = of_nat (height dimensions) / of_int (rows config);
          canvas = clearRect (set_canvas_size frameWidth frameHeight);
          result = (case source_rect config frameWidth frameHeight actualFrameIndex of
                      None \<Rightarrow> canvas
                    | Some (sx, sy, sw, sh) \<Rightarrow> drawImage paint img sx sy sw sh canvas)
      in if showCompare \<and> compareImg \<noteq> NoCompare then
           (let splitX = frameWidth * sliderPos / 100;
                divided = fillRect_band mix cyan (splitX - 1) (splitX - 1 + 2) result
            in case compareImg of
                 LoadedCompare original \<Rightarrow>
                   (case frame_cell config actualFrameIndex of
                      None \<Rightarrow> divided
                    | Some (row, col) \<Rightarrow>
                        clip_band mix splitX (splitX + (frameWidth - splitX))
                          (drawImage paint original (of_int col * frameWidth)
                             (of_int row * frameHeight) frameWidth frameHeight divided)
                          divided)
               | _ \<Rightarrow> divided)
         else result)"

subsection \<open>Assembling the animation (generateGif)\<close>

datatype gif_error = WorkerFetchFailed | NoCanvasContext | NoValidFrames | IndexSizeError

record GifOptions =
  gif_width :: rat
  gif_height :: rat
  gif_transparent :: "nat option"
  gif_background :: string

text \<open>
  What the codec keeps of a frame: a copy of the pixel data it read from the canvas, with
  the width and height of that data, and the delay; the delay \<open>1000 / fps\<close> is a double,
  not finite at a frame rate of 0.
\<close>

record Submission =
  frame_data :: "byte list"
  frame_width :: nat
  frame_height :: nat
  frame_delay :: "rat option"

datatype Blob = Blob GifOptions "Submission list"

text \<open>
  \<open>applyChromaKey(ctx, width, height)\<close> reads the whole canvas with
  \<open>getImageData(0, 0, width, height)\<close>, which raises for an empty rectangle, keys the
  data and writes it back.
\<close>

definition applyChromaKey :: "Canvas \<Rightarrow> rat \<Rightarrow> rat \<Rightarrow> gif_error + Canvas" where
  "applyChromaKey canvas w h =
     (if canvas_dim w = 0 \<or> canvas_dim h = 0 then Inl IndexSizeError
      else Inr (putImageData canvas (applyChromaKey_data (getImageData canvas))))"

text \<open>
  \<open>gif.addFrame(ctx, { copy: true, delay })\<close> copies
  \<open>ctx.getImageData(0, 0, width, height)\<close>, where \<open>width\<close> and \<open>height\<close> are the options
  the codec was made with, the frame size. This raises for an empty rectangle, as in
  \<open>applyChromaKey\<close>; otherwise the rectangle is the whole canvas.
\<close>

definition addFrame :: "Canvas \<Rightarrow> rat \<Rightarrow> rat \<Rightarrow> rat option \<Rightarrow> gif_error + Submission" where
  "addFrame canvas w h delay =
     (if canvas_dim w = 0 \<or> canvas_dim h = 0 then Inl IndexSizeError
      else Inr \<lparr> frame_data = getImageData canvas, frame_width = cv_width canvas,
                 frame_height = cv_height canvas, frame_delay = delay \<rparr>)"

text \<open>
  One round of \<open>framesToRender.forEach\<close>: composite, key when \<open>autoTransparent\<close> is set,
  and hand a copy of the canvas data to the codec with the delay \<open>1000 / fps\<close>.
\<close>

definition render_frame ::
  "(Image \<Rightarrow> rat \<Rightarrow> rat \<Rightarrow> pixel \<Rightarrow> pixel) \<Rightarrow> Image \<Rightarrow> SpriteConfig \<Rightarrow> rat \<Rightarrow> rat
     \<Rightarrow> Canvas \<Rightarrow> int \<Rightarrow> gif_error + Canvas \<times> Submission" where
  "render_frame paint img config frameWidth frameHeight canvas index =
     (let c3 = composite_frame paint img config frameWidth frameHeight canvas index;
          keyed_canvas = (if autoTransparent config
                          then applyChromaKey c3 frameWidth frameHeight else Inr c3)
      in case keyed_canvas of
           Inl e \<Rightarrow> Inl e
         | Inr c4 \<Rightarrow>
             (case addFrame c4 frameWidth frameHeight (js_div 1000 (of_int (fps config))) of
                Inl e \<Rightarrow> Inl e
              | Inr sub \<Rightarrow> Inr (c4, sub)))"

text \<open>
  The frames are rendered in order on the one canvas; the second component is the error
  that stopped the loop, if any. The first is what the codec has been handed so far.
\<close>

fun render_frames ::
  "(Image \<Rightarrow> rat \<Rightarrow> rat \<Rightarrow> pixel \<Rightarrow> pixel) \<Rightarrow> Image \<Rightarrow> SpriteConfig \<Rightarrow> rat \<Rightarrow> rat
     \<Rightarrow> int list \<Rightarrow> Canvas \<Rightarrow> Submission list \<Rightarrow> Submission list \<times> gif_error option" where
  "render_frames paint img config fw fh [] canvas subs = (subs, None)"
| "render_frames paint img config fw fh (index # rest) canvas subs =
     (case render_frame paint img config fw fh canvas index of
        Inl e \<Rightarrow> (subs, Some e)
      | Inr (canvas', sub) \<Rightarrow>
          render_frames paint img config fw fh rest canvas' (subs @ [sub]))"

text \<open>
  \<open>generateGif\<close>. The browser decides whether the worker script can be fetched and
  whether a 2D context is available. The result is the list of frames handed to the
  codec and the outcome of the promise: an error, or the blob the codec makes of its
  options and those frames. The progress callback is left out.
\<close>

definition generateGif ::
  "(Image \<Rightarrow> rat \<Rightarrow> rat \<Rightarrow> pixel \<Rightarrow> pixel) \<Rightarrow> bool \<Rightarrow> bool \<Rightarrow> Image \<Rightarrow> SpriteConfig
     \<Rightarrow> ImageDimensions \<Rightarrow> Submission list \<times> (gif_error + Blob)" where
  "generateGif paint worker_ok ctx_ok img config dimensions =
     (if \<not> worker_ok then ([], Inl WorkerFetchFailed)
      else
        let gif = \<lparr> gif_width = of_nat (width dimensions) / of_int (cols config),
                    gif_height = of_nat (height dimensions) / of_int (rows config),
                    gif_transparent =
                      (if autoTransparent config then Some KEY_COLOR_HEX else None),
                    gif_background =
                      (if autoTransparent config then ''#ffffff'' else ''#000000'') \<rparr>
        in if \<not> ctx_ok then ([], Inl NoCanvasContext)
           else
             let frameWidth = of_nat (width dimensions) / of_int (cols config);
                 frameHeight = of_nat (height dimensions) / of_int (rows config);
                 canvas = set_canvas_size frameWidth frameHeight;
                 frames = framesToRender config
             in if length frames = 0 then ([], Inl NoValidFrames)
                else (case render_frames paint img config frameWidth frameHeight
                             frames canvas [] of
                        (subs, Some e) \<Rightarrow> (subs, Inl e)
                      | (subs, None) \<Rightarrow> (subs, Inr (Blob gif subs))))"

subsection \<open>Application state (App)\<close>

datatype asset_type = Gif | Sheet

text \<open>
  The \<open>url\<close> of a saved asset is a data URL or an object URL; an object URL keeps its
  blob in memory until it is revoked.
\<close>

datatype asset_url = DataUrl string | ObjectUrl Blob

record SavedAsset =
  asset_id :: string
  asset_type :: asset_type
  asset_url :: asset_url
  asset_name :: string
  asset_timestamp :: nat
  asset_dimensions :: ImageDimensions

record NodeGroup =
  group_id :: string
  imageUrl :: "string option"
  originalSourceUrl :: "string option"
  group_dimensions :: ImageDimensions
  group_config :: SpriteConfig
  createdAt :: nat

datatype node_type = Raw | Editor | Preview

text \<open>A node of the canvas view; its layout fields (position, size) are left out.\<close>

record CanvasNodeData =
  node_id :: string
  groupId :: string
  node_type :: node_type
  title :: string

record AppState =
  groups :: "string \<rightharpoonup> NodeGroup"
  selectedGroupId :: "string option"
  nodes :: "CanvasNodeData list"
  savedAssets :: "SavedAsset list"

text \<open>
  What the browser contributes to an export: whether the worker script can be fetched,
  whether a 2D context is available, the decoding of an image URL (\<open>None\<close> when
  \<open>img.decode()\<close> rejects), the painting of image pixels, a fresh UUID and the clock.
\<close>

record Browser =
  fetch_worker_ok :: bool
  context2d_ok :: bool
  decode :: "string \<Rightarrow> Image option"
  painter :: "Image \<Rightarrow> rat \<Rightarrow> rat \<Rightarrow> pixel \<Rightarrow> pixel"
  randomUUID :: string
  now :: nat

datatype export_error = DecodeFailed | GifFailed gif_error

text \<open>
  \<open>generateGifAsset\<close>: returns at once for a group without image; otherwise decodes the
  image, awaits \<open>generateGif\<close> and, when that resolves, puts a new asset holding the
  blob's object URL in front of \<open>savedAssets\<close>. A failure is thrown on to the caller and
  leaves the state as it was.
\<close>

definition generateGifAsset :: "Browser \<Rightarrow> NodeGroup \<Rightarrow> AppState \<Rightarrow> AppState \<times> export_error option" where
  "generateGifAsset br grp st =
     (case imageUrl grp of
        None \<Rightarrow> (st, None)
      | Some url \<Rightarrow>
          if url = [] then (st, None)
          else (case decode br url of
                  None \<Rightarrow> (st, Some DecodeFailed)
                | Some img \<Rightarrow>
                    (case snd (generateGif (painter br) (fetch_worker_ok br) (context2d_ok br)
                                 img (group_config grp) (group_dimensions grp)) of
                       Inl e \<Rightarrow> (st, Some (GifFailed e))
                     | Inr blob \<Rightarrow>
                         (let fileName = ''sprite-'' @ take 4 (group_id grp) @ ''.gif'';
                              newAsset = \<lparr> asset_id = randomUUID br, asset_type = Gif,
                                           asset_url = ObjectUrl blob, asset_name = fileName,
                                           asset_timestamp = now br,
                                           asset_dimensions = group_dimensions grp \<rparr>
                          in (st\<lparr>savedAssets := newAsset # savedAssets st\<rparr>, None)))))"

text \<open>
  \<open>deleteGroup\<close>:
  \<^verbatim>\<open>const newGroups = { ...groups }; delete newGroups[groupId]; setGroups(newGroups);
  setNodes(prev => prev.filter(n => n.groupId !== groupId));
  if (selectedGroupId === groupId) setSelectedGroupId(null);\<close>
\<close>

definition deleteGroup :: "string \<Rightarrow> AppState \<Rightarrow> AppState" where
  "deleteGroup gid st =
     st\<lparr> groups := (groups st)(gid := None),
         nodes := filter (\<lambda>n. groupId n \<noteq> gid) (nodes st),
         selectedGroupId := (if selectedGroupId st = Some gid then None
                             else selectedGroupId st) \<rparr>"

subsection \<open>Retrying calls to the image service (geminiService)\<close>

text \<open>
  What \<open>retryOperation\<close> looks at in a thrown error: \<open>status\<close>, \<open>code\<close> and \<open>message\<close>, each of
  which may be missing.
\<close>

record ApiError =
  err_status :: "int option"
  err_code :: "int option"
  err_message :: "string option"

text \<open>\<open>s.includes(t)\<close>: \<open>t\<close> occurs in \<open>s\<close> as a contiguous substring.\<close>

fun str_includes :: "string \<Rightarrow> string \<Rightarrow> bool" where
  "str_includes [] t = (t = [])"
| "str_includes (c # s) t = (prefix t (c # s) \<or> str_includes s t)"

definition isTransient :: "ApiError \<Rightarrow> bool" where
  "isTransient error \<longleftrightarrow>
     err_status error = Some 503 \<or> err_code error = Some 503
     \<or> err_status error = Some 500 \<or> err_code error = Some 500
     \<or> (case err_message error of
           None \<Rightarrow> False
         | Some m \<Rightarrow> m \<noteq> [] \<and> str_includes m ''overloaded'')"

text \<open>
  \<^verbatim>\<open>async function retryOperation(operation, retries = 3, delay = 1000) {
    try { return await operation(); }
    catch (error) {
      if (retries > 0 && isTransient) {
        await sleep(delay);
        return retryOperation(operation, retries - 1, delay * 2); }
      throw error; } }\<close>
  The operation may answer differently each time it is called: \<open>operation n\<close> is the
  outcome of the call made after \<open>n\<close> earlier calls. The result is the outcome, the
  number of calls made so far and the delays slept, in order.
\<close>

fun retryOperation ::
  "(nat \<Rightarrow> ApiError + 'a) \<Rightarrow> nat \<Rightarrow> nat \<Rightarrow> nat \<Rightarrow> (ApiError + 'a) \<times> nat \<times> nat list" where
  "retryOperation operation calls retries delay =
     (case operation calls of
        Inr v \<Rightarrow> (Inr v, calls + 1, [])
      | Inl error \<Rightarrow>
          if retries > 0 \<and> isTransient error then
            (case retryOperation operation (calls + 1) (retries - 1) (delay * 2) of
               (r, n, ds) \<Rightarrow> (r, n, delay # ds))
          else (Inl error, calls + 1, []))"

declare retryOperation.simps [simp del]

text \<open>Every caller uses the defaults: 3 retries, 1000 ms.\<close>

definition retryOperation_default :: "(nat \<Rightarrow> ApiError + 'a) \<Rightarrow> (ApiError + 'a) \<times> nat \<times> nat list" where
  "retryOperation_default operation = retryOperation operation 0 3 1000"

subsection \<open>Editing the frame offsets\<close>

text \<open>
  \<open>handleNudge\<close> and \<open>handleResetOffset\<close> of the split editor; the new offsets replace
  the \<open>frameOffsets\<close> field of the group's configuration:
  \<^verbatim>\<open>const currentOffset = config.frameOffsets?.[index] || { x: 0, y: 0 };
  const newOffsets = { ...config.frameOffsets,
    [index]: { x: currentOffset.x + dx, y: currentOffset.y + dy } };\<close>
  and
  \<^verbatim>\<open>const newOffsets = { ...config.frameOffsets }; delete newOffsets[index];\<close>
\<close>

definition handleNudge :: "SpriteConfig \<Rightarrow> int \<Rightarrow> int \<Rightarrow> int \<Rightarrow> SpriteConfig" where
  "handleNudge config index dx dy =
     (let currentOffset = (case frameOffsets config index of None \<Rightarrow> (0, 0) | Some off \<Rightarrow> off);
          newOffsets = (frameOffsets config)
                         (index \<mapsto> (fst currentOffset + dx, snd currentOffset + dy))
      in config\<lparr>frameOffsets := newOffsets\<rparr>)"

definition handleResetOffset :: "SpriteConfig \<Rightarrow> int \<Rightarrow> SpriteConfig" where
  "handleResetOffset config index =
     (let newOffsets = (frameOffsets config)(index := None)
      in config\<lparr>frameOffsets := newOffsets\<rparr>)"

text \<open>The modal editor has the same two operations, \<open>updateFrameOffset\<close> and \<open>resetFrameOffset\<close>.\<close>

definition updateFrameOffset :: "SpriteConfig \<Rightarrow> int \<Rightarrow> int \<Rightarrow> int \<Rightarrow> SpriteConfig" where
  "updateFrameOffset config index dx dy =
     (let currentOffsets = frameOffsets config;
          currentOffset = (case currentOffsets index of None \<Rightarrow> (0, 0) | Some off \<Rightarrow> off);
          newOffsets = currentOffsets
                         (index \<mapsto> (fst currentOffset + dx, snd currentOffset + dy))
      in config\<lparr>frameOffsets := newOffsets\<rparr>)"

definition resetFrameOffset :: "SpriteConfig \<Rightarrow> int \<Rightarrow> SpriteConfig" where
  "resetFrameOffset config index =
     (let currentOffsets = (frameOffsets config)(index := None)
      in config\<lparr>frameOffsets := currentOffsets\<rparr>)"

subsection \<open>Example data\<close>

text \<open>
  Configurations, a small image and a nearest-pixel painter, a group with its browser
  and application state, service errors and operations, and an image whose width its
  three columns do not divide.
\<close>

definition scenario_C :: SpriteConfig where
  "scenario_C = INITIAL_CONFIG\<lparr>rows := 2, cols := 2, totalFrames := 4, excludedFrames := [1]\<rparr>"

text \<open>The configuration of scenario C played at 15 frames a second.\<close>

definition fps15_config :: SpriteConfig where
  "fps15_config = scenario_C\<lparr>fps := 15\<rparr>"

definition demo_image :: Image where
  "demo_image = \<lparr> im_width = 4, im_height = 2,
                   im_pixels = [(10, 20, 30, 255), (11, 21, 31, 255), (12, 22, 32, 255),
                                (13, 23, 33, 255), (14, 24, 34, 255), (15, 25, 35, 255),
                                (16, 26, 36, 255), (17, 27, 37, 255)] \<rparr>"

definition demo_dimensions :: ImageDimensions where
  "demo_dimensions = \<lparr> width = 4, height = 2 \<rparr>"

definition nearest_paint :: "Image \<Rightarrow> rat \<Rightarrow> rat \<Rightarrow> pixel \<Rightarrow> pixel" where
  "nearest_paint img u v old =
     (if 0 \<le> u \<and> u < of_nat (im_width img) \<and> 0 \<le> v \<and> v < of_nat (im_height img)
      then im_pixels img ! (nat \<lfloor>v\<rfloor> * im_width img + nat \<lfloor>u\<rfloor>) else old)"

definition scenario_D :: SpriteConfig where
  "scenario_D = INITIAL_CONFIG\<lparr>rows := 1, cols := 2, totalFrames := 2, excludedFrames := [0, 1]\<rparr>"

definition demo_config :: SpriteConfig where
  "demo_config = INITIAL_CONFIG\<lparr>rows := 1, cols := 2, totalFrames := 2\<rparr>"

definition demo_group :: NodeGroup where
  "demo_group = \<lparr> group_id = ''c0ffee00-0001'', imageUrl = Some ''data:image/png;base64,iVBOR'',
                   originalSourceUrl = None, group_dimensions = demo_dimensions,
                   group_config = demo_config, createdAt = 1700000000000 \<rparr>"

definition demo_browser :: Browser where
  "demo_browser = \<lparr> fetch_worker_ok = True, context2d_ok = True,
                     decode = (\<lambda>url. Some demo_image), painter = nearest_paint,
                     randomUUID = ''a55e7000-0002'', now = 1700000000500 \<rparr>"

definition demo_state :: AppState where
  "demo_state = \<lparr> groups = [''c0ffee00-0001'' \<mapsto> demo_group],
                   selectedGroupId = Some ''c0ffee00-0001'',
                   nodes = [\<lparr> node_id = ''n1'', groupId = ''c0ffee00-0001'', node_type = Raw,
                               title = ''Original / Source'' \<rparr>,
                            \<lparr> node_id = ''n2'', groupId = ''c0ffee00-0001'', node_type = Editor,
                               title = ''Split Frame Editor'' \<rparr>,
                            \<lparr> node_id = ''n3'', groupId = ''0ther000-0003'', node_type = Preview,
                               title = ''Animation Preview'' \<rparr>],
                   savedAssets = [] \<rparr>"

definition exported_state :: AppState where
  "exported_state = fst (generateGifAsset demo_browser demo_group demo_state)"

definition err_overloaded :: ApiError where
  "err_overloaded = \<lparr> err_status = Some 503, err_code = None,
                   err_message = Some ''The model is overloaded.'' \<rparr>"

definition err_bad_request :: ApiError where
  "err_bad_request = \<lparr> err_status = Some 400, err_code = None,
                    err_message = Some ''Invalid argument'' \<rparr>"

definition always_overloaded :: "nat \<Rightarrow> ApiError + string" where
  "always_overloaded n = Inl err_overloaded"

definition always_bad_request :: "nat \<Rightarrow> ApiError + string" where
  "always_bad_request n = Inl err_bad_request"

definition busy_message :: ApiError where
  "busy_message = \<lparr> err_status = None, err_code = None,
                     err_message = Some ''Model overloaded, retry'' \<rparr>"

definition nudged_config :: SpriteConfig where
  "nudged_config = demo_config\<lparr>frameOffsets := [1 \<mapsto> (2, - 1)]\<rparr>"


definition uneven_image :: Image where
  "uneven_image = \<lparr> im_width = 10, im_height = 10,
                     im_pixels = replicate 100 (200, 200, 200, 255) \<rparr>"

definition uneven_dimensions :: ImageDimensions where
  "uneven_dimensions = \<lparr> width = 10, height = 10 \<rparr>"

definition uneven_config :: SpriteConfig where
  "uneven_config = INITIAL_CONFIG\<lparr>rows := 1, cols := 3, totalFrames := 3\<rparr>"


definition half_mix :: "rat \<Rightarrow> pixel \<Rightarrow> pixel \<Rightarrow> pixel" where
  "half_mix c new old = (if 1 / 2 \<le> c then new else old)"



text \<open>An image two pixels wide, narrower than the three columns of the grid.\<close>

definition narrow_image :: Image where
  "narrow_image = \<lparr> im_width = 2, im_height = 1,
                     im_pixels = [(200, 200, 200, 255), (90, 90, 90, 255)] \<rparr>"

definition narrow_dimensions :: ImageDimensions where
  "narrow_dimensions = \<lparr> width = 2, height = 1 \<rparr>"

section \<open>Properties\<close>

subsection \<open>Grid addressing\<close>

lemma js_rem_nonneg: "0 \<le> a \<Longrightarrow> 0 < b \<Longrightarrow> js_rem a b = Some (a mod b)"
  by (cases "a = 0") (simp_all add: js_rem_def)

lemma js_floor_div_pos: "b \<noteq> 0 \<Longrightarrow> js_floor_div a b = Some (a div b)"
  by (simp add: js_floor_div_def floor_divide_of_int_eq)

text \<open>
  C1. For rows, cols at least 1 and an index in \<open>[0, rows * cols)\<close>, row-major
  addressing gives \<open>col = index mod cols\<close>, \<open>row = index div cols\<close> and column-major
  addressing gives \<open>row = index mod rows\<close>, \<open>col = index div rows\<close>; on a 2x2
  column-major grid the indices 0, 1, 2, 3 are the cells (0,0), (1,0), (0,1), (1,1).
\<close>

theorem frame_cell_mapping:
  assumes "1 \<le> rows config" and "1 \<le> cols config"
    and "0 \<le> index" and "index < rows config * cols config"
  shows "(direction config = Row \<longrightarrow>
            frame_cell config index = Some (index div cols config, index mod cols config))
       \<and> (direction config = Column \<longrightarrow>
            frame_cell config index = Some (index mod rows config, index div rows config))
       \<and> (rows config = 2 \<and> cols config = 2 \<and> direction config = Column \<longrightarrow>
            map (frame_cell config) [0, 1, 2, 3]
              = [Some (0, 0), Some (1, 0), Some (0, 1), Some (1, 1)])"
proof (intro conjI impI)
  assume "direction config = Row"
  with assms show "frame_cell config index
      = Some (index div cols config, index mod cols config)"
    by (simp add: frame_cell_def js_rem_nonneg js_floor_div_pos)
next
  assume "direction config = Column"
  with assms show "frame_cell config index
      = Some (index mod rows config, index div rows config)"
    by (simp add: frame_cell_def js_rem_nonneg js_floor_div_pos)
next
  assume "rows config = 2 \<and> cols config = 2 \<and> direction config = Column"
  then show "map (frame_cell config) [0, 1, 2, 3]
      = [Some (0, 0), Some (1, 0), Some (0, 1), Some (1, 1)]"
    by (simp add: frame_cell_def js_rem_nonneg js_floor_div_pos)
qed

theorem frame_cell_mapping_witness:
  "frame_cell (INITIAL_CONFIG\<lparr>rows := 2, cols := 2, totalFrames := 4, direction := Column\<rparr>) 2
     = Some (0, 1)
   \<and> frame_cell (INITIAL_CONFIG\<lparr>rows := 2, cols := 3, totalFrames := 6\<rparr>) 4 = Some (1, 1)"
  using frame_cell_mapping
      [of "INITIAL_CONFIG\<lparr>rows := 2, cols := 2, totalFrames := 4, direction := Column\<rparr>" 2]
    frame_cell_mapping [of "INITIAL_CONFIG\<lparr>rows := 2, cols := 3, totalFrames := 6\<rparr>" 4]
  by (simp add: INITIAL_CONFIG_def)

subsection \<open>Frame enumeration and playback clock\<close>

lemma frames_loop_filter:
  "frames_loop config i frames
     = frames @ filter (\<lambda>j. j \<notin> set (excludedFrames config)) [i..totalFrames config - 1]"
proof (induction config i frames rule: frames_loop.induct)
  case (1 config i frames)
  show ?case
  proof (cases "i < totalFrames config")
    case True
    then have "[i..totalFrames config - 1] = i # [i + 1..totalFrames config - 1]"
      by (simp add: upto_rec1)
    with True "1.IH" show ?thesis
      by (subst frames_loop.simps) simp
  next
    case False
    then show ?thesis
      by (subst frames_loop.simps) simp
  qed
qed

lemma getValidFrames_filter:
  "getValidFrames config
     = filter (\<lambda>j. j \<notin> set (excludedFrames config)) [0..totalFrames config - 1]"
  by (simp add: getValidFrames_def frames_loop_filter)

lemma framesToRender_filter:
  "framesToRender config
     = filter (\<lambda>j. j \<notin> set (excludedFrames config)) [0..totalFrames config - 1]"
  by (simp add: framesToRender_def frames_loop_filter)

lemma sorted_distinct_filter_upto:
  "sorted (filter P [i..j]) \<and> distinct (filter P [i..j])"
  by (simp add: sorted_wrt_filter)

lemma ulp_search_SomeD:
  "ulp_search n e0 q = Some e \<Longrightarrow>
   e0 \<le> e \<and> e < e0 + int n \<and> q < 2 powi (e + 53) \<and> (e = e0 \<or> 2 powi (e + 52) \<le> q)"
proof (induction n arbitrary: e0)
  case 0
  then show ?case by simp
next
  case (Suc n)
  show ?case
  proof (cases "q < 2 powi (e0 + 53)")
    case True
    with Suc.prems show ?thesis by simp
  next
    case False
    with Suc.prems have "ulp_search n (e0 + 1) q = Some e" by simp
    from Suc.IH [OF this]
    have *: "e0 + 1 \<le> e" "e < e0 + 1 + int n" "q < 2 powi (e + 53)"
      "e = e0 + 1 \<or> 2 powi (e + 52) \<le> q"
      by simp_all
    from False have "2 powi (e0 + 53) \<le> q" by simp
    with *(4) have "2 powi (e + 52) \<le> q"
      by (auto simp add: add.commute add.left_commute)
    with * show ?thesis by simp
  qed
qed

lemma ulp_search_SomeI:
  assumes "e0 \<le> e" and "e < e0 + int n" and "q < 2 powi (e + 53)"
    and "e = e0 \<or> 2 powi (e + 52) \<le> q"
  shows "ulp_search n e0 q = Some e"
  using assms
proof (induction n arbitrary: e0)
  case 0
  then show ?case by simp
next
  case (Suc n)
  show ?case
  proof (cases "q < 2 powi (e0 + 53)")
    case True
    have "e = e0"
    proof (rule ccontr)
      assume "e \<noteq> e0"
      with Suc.prems have "e0 + 53 \<le> e + 52" and "2 powi (e + 52) \<le> q" by simp_all
      then have "(2::rat) powi (e0 + 53) \<le> q"
        using power_int_increasing [of "e0 + 53" "e + 52" "2::rat"] by simp
      with True show False by simp
    qed
    with True show ?thesis by simp
  next
    case False
    with Suc.prems(3) have ne: "e \<noteq> e0" by auto
    with Suc.prems have "ulp_search n (e0 + 1) q = Some e"
      by (intro Suc.IH) simp_all
    with False show ?thesis by simp
  qed
qed

lemma round_half_even_eqI:
  assumes "of_int m - 1 / 2 < r" and "r < of_int m + 1 / 2"
  shows "round_half_even r = m"
proof -
  have "\<lfloor>r\<rfloor> = m \<or> \<lfloor>r\<rfloor> = m - 1"
    using assms by (simp add: floor_eq_iff) linarith
  then show ?thesis
  proof
    assume f: "\<lfloor>r\<rfloor> = m"
    with assms have "r - of_int \<lfloor>r\<rfloor> < 1 / 2" by simp
    with f show ?thesis by (simp add: round_half_even_def Let_def)
  next
    assume f: "\<lfloor>r\<rfloor> = m - 1"
    with assms have "1 / 2 < r - of_int \<lfloor>r\<rfloor>" by simp
    with f show ?thesis by (simp add: round_half_even_def Let_def)
  qed
qed

lemma round_half_even_error: "\<bar>of_int (round_half_even r) - r\<bar> \<le> 1 / 2"
proof -
  have "of_int \<lfloor>r\<rfloor> \<le> r" "r < of_int \<lfloor>r\<rfloor> + 1" by linarith+
  then show ?thesis
    by (auto simp add: round_half_even_def Let_def abs_le_iff)
qed

lemma round_half_even_nonneg: "0 \<le> r \<Longrightarrow> 0 \<le> round_half_even r"
  by (auto simp add: round_half_even_def Let_def)


lemma round_double_eqI:
  assumes "0 < q" and "- 1074 \<le> e" and "e \<le> 971"
    and "q < 2 powi (e + 53)" and "e = - 1074 \<or> 2 powi (e + 52) \<le> q"
    and "of_int m - 1 / 2 < q / 2 powi e" and "q / 2 powi e < of_int m + 1 / 2"
    and "of_int m * 2 powi e < (2::rat) powi 1024"
  shows "round_double q = Some (of_int m * 2 powi e)"
proof -
  from assms(2,3,4,5) have "ulp_search 2046 (- 1074) q = Some e"
    by (intro ulp_search_SomeI) simp_all
  moreover from assms(6,7) have "round_half_even (q / 2 powi e) = m"
    by (rule round_half_even_eqI)
  ultimately show ?thesis
    using assms(1,8) by (simp add: round_double_def ulp_exp_def Let_def)
qed


lemma ulp_search_total:
  "0 < n \<Longrightarrow> q < 2 powi (e0 + int n + 52) \<Longrightarrow> \<exists>e. ulp_search n e0 q = Some e"
proof (induction n arbitrary: e0)
  case 0
  then show ?case by simp
next
  case (Suc n)
  show ?case
  proof (cases "q < 2 powi (e0 + 53)")
    case True
    then show ?thesis by simp
  next
    case False
    have "0 < n"
    proof (rule ccontr)
      assume "\<not> 0 < n"
      with Suc.prems(2) have "q < 2 powi (e0 + 53)" by (simp add: add.commute)
      with False show False ..
    qed
    moreover from Suc.prems(2) have "q < 2 powi (e0 + 1 + int n + 52)"
      by (simp add: add.commute add.left_commute)
    ultimately have "\<exists>e. ulp_search n (e0 + 1) q = Some e" by (rule Suc.IH)
    with False show ?thesis by simp
  qed
qed

lemma round_double_nonneg:
  assumes "0 \<le> q" and "round_double q = Some r"
  shows "0 \<le> r"
proof (cases "q = 0")
  case True
  with assms(2) show ?thesis by (simp add: round_double_def)
next
  case False
  with assms(1) have q: "0 < q" by simp
  then have "0 \<le> round_half_even (\<bar>q\<bar> / 2 powi e)" for e
    by (intro round_half_even_nonneg) simp
  then have "0 \<le> (of_int (round_half_even (\<bar>q\<bar> / 2 powi e)) :: rat) * 2 powi e" for e
    by simp
  with assms(2) q show ?thesis
    by (auto simp add: round_double_def Let_def split: option.splits if_splits)
qed

lemma round_double_error:
  assumes "0 < x" and "x \<le> 2 powi 1023"
  shows "\<exists>r. round_double x = Some r \<and> \<bar>r - x\<bar> \<le> x / 2 ^ 53 + 2 powi (- 1075)
           \<and> (2 powi (- 1022) \<le> x \<longrightarrow> \<bar>r - x\<bar> \<le> x / 2 ^ 53)"
proof -
  have step: "(2::rat) powi 1023 < 2 powi 1024"
    by (intro power_int_strict_increasing) simp_all
  with assms(2) have "x < 2 powi (- 1074 + int 2046 + 52)" by simp
  then have "\<exists>e. ulp_search 2046 (- 1074) x = Some e"
    by (intro ulp_search_total) simp
  then obtain e where e: "ulp_search 2046 (- 1074) x = Some e" ..
  from ulp_search_SomeD [OF e]
  have lo: "- 1074 \<le> e" and hi: "e \<le> 971" and up: "x < 2 powi (e + 53)"
    and low: "e = - 1074 \<or> 2 powi (e + 52) \<le> x"
    by simp_all
  define m where "m = round_half_even (x / 2 powi e)"
  define r :: rat where "r = of_int m * 2 powi e"
  have pe: "(0::rat) < 2 powi e" by simp
  have "\<bar>of_int m - x / 2 powi e\<bar> \<le> 1 / 2"
    unfolding m_def by (rule round_half_even_error)
  then have "\<bar>of_int m - x / 2 powi e\<bar> * 2 powi e \<le> 1 / 2 * 2 powi e"
    using pe by (intro mult_right_mono) simp_all
  moreover have "\<bar>of_int m - x / 2 powi e\<bar> * 2 powi e = \<bar>r - x\<bar>"
  proof -
    have "(of_int m - x / 2 powi e) * 2 powi e = r - x"
      using pe by (simp add: r_def field_simps)
    then have "\<bar>r - x\<bar> = \<bar>of_int m - x / 2 powi e\<bar> * \<bar>(2::rat) powi e\<bar>"
      by (simp only: abs_mult [symmetric])
    with pe show ?thesis by simp
  qed
  moreover have half: "1 / 2 * (2::rat) powi e = 2 powi (e - 1)"
    by (simp add: power_int_diff)
  ultimately have err: "\<bar>r - x\<bar> \<le> 2 powi (e - 1)" by simp
  have split: "(2::rat) powi (e - 1) = 2 powi (e + 52) / 2 ^ 53"
    using power_int_diff [of "2::rat" "e + 52" 53] by simp
  have x53: "0 \<le> x / 2 ^ 53" using assms(1) by simp
  have tiny: "(0::rat) \<le> 2 powi (- 1075)" by simp
  have b1: "\<bar>r - x\<bar> \<le> x / 2 ^ 53 + 2 powi (- 1075)"
  proof (cases "e = - 1074")
    case True
    then have "(2::rat) powi (e - 1) = 2 powi (- 1075)" by simp
    with err x53 show ?thesis by linarith
  next
    case False
    with low have "2 powi (e + 52) \<le> x" by simp
    then have "2 powi (e + 52) / 2 ^ 53 \<le> x / 2 ^ 53"
      by (simp add: divide_right_mono)
    with err split tiny show ?thesis by linarith
  qed
  have b2: "\<bar>r - x\<bar> \<le> x / 2 ^ 53" if n: "2 powi (- 1022) \<le> x"
  proof -
    from low n have "2 powi (e + 52) \<le> x" by auto
    then have "2 powi (e + 52) / 2 ^ 53 \<le> x / 2 ^ 53"
      by (simp add: divide_right_mono)
    with err split show ?thesis by linarith
  qed
  from hi have "(2::rat) powi (e - 1) \<le> 2 powi 970"
    by (intro power_int_increasing) simp_all
  moreover have "(2::rat) powi 970 < 2 powi 1023"
    by (intro power_int_strict_increasing) simp_all
  moreover have "(2::rat) powi 1024 = 2 * 2 powi 1023"
    using power_int_add_1 [of "2::rat" 1023] by simp
  ultimately have fin: "\<not> 2 powi 1024 \<le> r"
    using err assms(2) by linarith
  from assms(1) e fin have "round_double x = Some r"
    by (simp add: round_double_def ulp_exp_def Let_def m_def r_def)
  with b1 b2 show ?thesis by blast
qed


lemma round_double_zero: "round_double 0 = Some 0"
  by (simp add: round_double_def)

lemma quotient_perturb:
  fixes c I t eps :: rat
  assumes c: "0 < c" and t: "0 \<le> t" and eps: "0 \<le> eps" "eps \<le> 1 / 2"
    and err: "\<bar>I - c\<bar> \<le> c * eps"
  shows "c / 2 \<le> I \<and> \<bar>t / I - t / c\<bar> \<le> t / I * eps \<and> t / I \<le> 2 * (t / c)"
proof -
  from c eps(2) have "c * eps \<le> c * (1 / 2)"
    by (intro mult_left_mono) simp_all
  with err have half: "c / 2 \<le> I" by (simp add: abs_le_iff)
  moreover from c have "0 < c / 2" by simp
  ultimately have I: "0 < I" by linarith
  have "t / I - t / c = t / I * ((c - I) / c)"
    using c I by (simp add: field_simps)
  then have "\<bar>t / I - t / c\<bar> = t / I * (\<bar>c - I\<bar> / c)"
    using c I t by (simp add: abs_mult)
  also have "\<dots> \<le> t / I * eps"
  proof (rule mult_left_mono)
    from err have "\<bar>c - I\<bar> \<le> c * eps" by (simp add: abs_minus_commute)
    with c show "\<bar>c - I\<bar> / c \<le> eps" by (simp add: field_simps)
    from t I show "0 \<le> t / I" by simp
  qed
  finally have d: "\<bar>t / I - t / c\<bar> \<le> t / I * eps" .
  have "t / I \<le> t / (c / 2)"
    using half c t by (intro divide_left_mono) simp_all
  moreover have "t / (c / 2) = 2 * (t / c)" by simp
  ultimately have "t / I \<le> 2 * (t / c)" by (simp only:)
  with half d show ?thesis by simp
qed

lemma frame_interval_error:
  assumes "1 \<le> f" and "f \<le> 2 ^ 53"
  shows "\<exists>I. js_div 1000 (of_int f) = Some I
           \<and> \<bar>I - 1000 / of_int f\<bar> \<le> 1000 / of_int f * (1 / 2 ^ 53)"
proof -
  let ?c = "1000 / of_int f :: rat"
  from assms(1) have f: "(1::rat) \<le> of_int f" by simp
  then have c: "0 < ?c" by simp
  from f have "?c \<le> 1000" by (simp add: field_simps)
  moreover have "(1000::rat) \<le> 2 powi 10" by simp
  moreover have "(2::rat) powi 10 \<le> 2 powi 1023"
    by (intro power_int_increasing) simp_all
  ultimately have up: "?c \<le> 2 powi 1023" by linarith
  from assms(2) have "(of_int f :: rat) \<le> of_int (2 ^ 53)" by (simp only: of_int_le_iff)
  then have f53: "(of_int f :: rat) \<le> 2 ^ 53" by simp
  have "(2::rat) powi (- 1022) \<le> 2 powi (- 53)"
    by (intro power_int_increasing) simp_all
  also have "\<dots> = 1 / 2 ^ 53" by (simp add: power_int_minus field_simps)
  also have "\<dots> \<le> 1 / of_int f"
    using f f53 by (intro divide_left_mono) simp_all
  also have "\<dots> \<le> ?c" using f by (simp add: field_simps)
  finally have low: "2 powi (- 1022) \<le> ?c" .
  from round_double_error [OF c up] low
  obtain r where "round_double ?c = Some r" and "\<bar>r - ?c\<bar> \<le> ?c / 2 ^ 53"
    by blast
  moreover from f have "(of_int f :: rat) \<noteq> 0" by simp
  ultimately show ?thesis by (simp add: js_div_def)
qed

lemma tick_quotient_error:
  assumes "0 \<le> t" and "t \<le> 2 ^ 53" and "1 \<le> f" and "f \<le> 2 ^ 53"
  shows "\<exists>q. tick_quotient f t = Some q \<and> 0 \<le> q
           \<and> \<bar>q - t / (1000 / of_int f)\<bar>
               \<le> t / (1000 / of_int f) / 2 ^ 51 + 2 powi (- 1075)"
proof -
  let ?c = "1000 / of_int f :: rat"
  let ?X = "t / ?c"
  from assms(3) have f: "(1::rat) \<le> of_int f" by simp
  then have c: "0 < ?c" by simp
  from frame_interval_error [OF assms(3,4)]
  obtain I where I: "js_div 1000 (of_int f) = Some I"
    and Ierr: "\<bar>I - ?c\<bar> \<le> ?c * (1 / 2 ^ 53)"
    by blast
  have "(1::rat) / 2 ^ 53 \<le> 1 / 2" by simp
  from quotient_perturb [OF c assms(1) _ this Ierr]
  have half: "?c / 2 \<le> I" and yX: "\<bar>t / I - ?X\<bar> \<le> t / I * (1 / 2 ^ 53)"
    and y2: "t / I \<le> 2 * ?X"
    by simp_all
  from c have "0 < ?c / 2" by simp
  with half have Ipos: "0 < I" by linarith
  from c assms(1) have X0: "0 \<le> ?X" by simp
  show ?thesis
  proof (cases "t = 0")
    case True
    with I Ipos show ?thesis
      by (simp add: tick_quotient_def js_div_def round_double_zero)
  next
    case False
    with assms(1) have tpos: "0 < t" by simp
    with Ipos have y: "0 < t / I" by simp
    from assms(4) have "(of_int f :: rat) \<le> of_int (2 ^ 53)" by (simp only: of_int_le_iff)
    then have f53: "(of_int f :: rat) \<le> 2 ^ 53" by simp
    have "?X = t * of_int f / 1000" by simp
    also have "\<dots> \<le> 2 ^ 53 * 2 ^ 53 / 1000"
      using assms(1,2) f f53 by (intro divide_right_mono mult_mono) simp_all
    also have "\<dots> \<le> 2 powi 106" by simp
    finally have "?X \<le> 2 powi 106" .
    with y2 have "t / I \<le> 2 * 2 powi 106" by linarith
    also have "\<dots> = 2 powi 107" by simp
    also have "\<dots> \<le> 2 powi 1023"
      by (intro power_int_increasing) simp_all
    finally have yup: "t / I \<le> 2 powi 1023" .
    from round_double_error [OF y yup]
    obtain q where q: "round_double (t / I) = Some q"
      and qerr: "\<bar>q - t / I\<bar> \<le> t / I / 2 ^ 53 + 2 powi (- 1075)"
      by blast
    from y q have q0: "0 \<le> q"
      using round_double_nonneg [of "t / I" q] by simp
    have "t / I * (1 / 2 ^ 53) \<le> 2 * ?X * (1 / 2 ^ 53)"
      using y2 by (intro mult_right_mono) simp_all
    then have yb: "t / I / 2 ^ 53 \<le> ?X / 2 ^ 52" by simp
    from qerr yX yb have "\<bar>q - ?X\<bar> \<le> ?X / 2 ^ 52 + ?X / 2 ^ 52 + 2 powi (- 1075)"
      by (simp add: abs_le_iff)
    moreover have "?X / 2 ^ 52 + ?X / 2 ^ 52 = ?X / 2 ^ 51" by simp
    ultimately have "\<bar>q - ?X\<bar> \<le> ?X / 2 ^ 51 + 2 powi (- 1075)" by simp
    moreover from I q Ipos have "tick_quotient f t = Some q"
      by (simp add: tick_quotient_def js_div_def)
    ultimately show ?thesis using q0 by blast
  qed
qed

lemma animate_frame_quotient:
  assumes "getValidFrames config \<noteq> []" and "tick_quotient (fps config) time = Some q"
    and "0 \<le> q"
  shows "animate_frame config time
     = ShowFrame (getValidFrames config ! nat (\<lfloor>q\<rfloor> mod int (length (getValidFrames config))))"
proof -
  let ?vs = "getValidFrames config"
  from assms(3) have n0: "0 \<le> \<lfloor>q\<rfloor>" by simp
  from assms(1) have len: "0 < int (length ?vs)" by simp
  have rem: "js_rem \<lfloor>q\<rfloor> (int (length ?vs)) = Some (\<lfloor>q\<rfloor> mod int (length ?vs))"
    using n0 len by (rule js_rem_nonneg)
  have "0 \<le> \<lfloor>q\<rfloor> mod int (length ?vs)" "\<lfloor>q\<rfloor> mod int (length ?vs) < int (length ?vs)"
    using len by simp_all
  then have idx: "js_index ?vs (\<lfloor>q\<rfloor> mod int (length ?vs))
      = Some (?vs ! nat (\<lfloor>q\<rfloor> mod int (length ?vs)))"
    by (simp add: js_index_def)
  from assms(1,2) rem idx show ?thesis
    by (simp add: animate_frame_def Let_def)
qed

lemma animate_frame_member:
  assumes "animate_frame config time = ShowFrame f"
  shows "f \<in> set (getValidFrames config)"
  using assms
  by (auto simp add: animate_frame_def Let_def js_index_def
      split: if_splits option.splits)

lemma floor_near:
  fixes q X d :: rat
  assumes "\<bar>q - X\<bar> \<le> d" and "of_int n + d \<le> X" and "X + d < of_int n + 1"
  shows "\<lfloor>q\<rfloor> = n"
proof -
  from assms have "of_int n \<le> q" "q < of_int n + 1"
    by (simp_all add: abs_le_iff)
  then show ?thesis by (simp add: floor_eq_iff)
qed

lemma interval_15: "round_double (1000 / 15) = Some (4691249611844267 / 2 ^ 46)"
proof -
  have "round_double (1000 / 15) = Some (of_int 4691249611844267 * 2 powi (- 46))"
    by (rule round_double_eqI) (simp_all add: power_int_minus field_simps)
  then show ?thesis by (simp add: power_int_minus field_simps)
qed

lemma quotient_15_1000:
  "round_double (1000 / (4691249611844267 / 2 ^ 46)) = Some (8444249301319679 / 2 ^ 49)"
proof -
  have "round_double (1000 / (4691249611844267 / 2 ^ 46))
      = Some (of_int 8444249301319679 * 2 powi (- 49))"
    by (rule round_double_eqI) (simp_all add: power_int_minus field_simps)
  then show ?thesis by (simp add: power_int_minus field_simps)
qed

lemma tick_quotient_15_1000: "tick_quotient 15 1000 = Some (8444249301319679 / 2 ^ 49)"
  using interval_15 quotient_15_1000 by (simp add: tick_quotient_def js_div_def)

lemma tick_quotient_15_0: "tick_quotient 15 0 = Some 0"
  using interval_15 by (simp add: tick_quotient_def js_div_def round_double_zero)

lemma getValidFrames_fps15: "getValidFrames fps15_config = [0, 2, 3]"
  by (simp add: getValidFrames_filter fps15_config_def scenario_C_def INITIAL_CONFIG_def
      upto.simps)


lemma animate_frame_formula:
  assumes t: "0 \<le> time" "time \<le> 2 ^ 53" and f: "1 \<le> fps config" "fps config \<le> 2 ^ 53"
    and ne: "getValidFrames config \<noteq> []"
    and lo: "of_int \<lfloor>time / (1000 / of_int (fps config))\<rfloor>
               + (time / (1000 / of_int (fps config)) / 2 ^ 51 + 2 powi (- 1075))
             \<le> time / (1000 / of_int (fps config))"
    and hi: "time / (1000 / of_int (fps config))
               + (time / (1000 / of_int (fps config)) / 2 ^ 51 + 2 powi (- 1075))
             < of_int \<lfloor>time / (1000 / of_int (fps config))\<rfloor> + 1"
  shows "animate_frame config time
     = ShowFrame (getValidFrames config
         ! nat (\<lfloor>time / (1000 / of_int (fps config))\<rfloor>
                  mod int (length (getValidFrames config))))"
proof -
  from tick_quotient_error [OF t f]
  obtain q where q: "tick_quotient (fps config) time = Some q" and q0: "0 \<le> q"
    and err: "\<bar>q - time / (1000 / of_int (fps config))\<bar>
               \<le> time / (1000 / of_int (fps config)) / 2 ^ 51 + 2 powi (- 1075)"
    by blast
  from err lo hi have "\<lfloor>q\<rfloor> = \<lfloor>time / (1000 / of_int (fps config))\<rfloor>"
    by (rule floor_near)
  with animate_frame_quotient [OF ne q q0] show ?thesis by simp
qed

lemma floor_shift_period:
  fixes time :: rat and I :: rat
  assumes "I \<noteq> 0"
  shows "\<lfloor>(time + of_nat k * (of_nat n * I)) / I\<rfloor> = \<lfloor>time / I\<rfloor> + int (k * n)"
proof -
  from assms have "(time + of_nat k * (of_nat n * I)) / I = time / I + of_int (int (k * n))"
    by (simp add: field_simps)
  then show ?thesis
    by (simp only: floor_add_int)
qed

lemma animate_frame_period:
  assumes t: "0 \<le> time" "time \<le> 2 ^ 53" and f: "1 \<le> fps config" "fps config \<le> 2 ^ 53"
  shows "\<forall>k. let time' = time + of_nat k * (of_nat (length (getValidFrames config))
                                            * (1000 / of_int (fps config)));
                X = time / (1000 / of_int (fps config));
                X' = time' / (1000 / of_int (fps config))
            in getValidFrames config \<noteq> [] \<and> time' \<le> 2 ^ 53
               \<and> of_int \<lfloor>X\<rfloor> + (X / 2 ^ 51 + 2 powi (- 1075)) \<le> X
               \<and> X + (X / 2 ^ 51 + 2 powi (- 1075)) < of_int \<lfloor>X\<rfloor> + 1
               \<and> of_int \<lfloor>X'\<rfloor> + (X' / 2 ^ 51 + 2 powi (- 1075)) \<le> X'
               \<and> X' + (X' / 2 ^ 51 + 2 powi (- 1075)) < of_int \<lfloor>X'\<rfloor> + 1
               \<longrightarrow> animate_frame config time' = animate_frame config time"
proof (unfold Let_def, intro allI impI, elim conjE)
  fix k
  let ?I = "1000 / of_int (fps config) :: rat"
  let ?L = "length (getValidFrames config)"
  let ?t' = "time + of_nat k * (of_nat ?L * ?I)"
  assume ne: "getValidFrames config \<noteq> []" and up: "?t' \<le> 2 ^ 53"
    and lo: "of_int \<lfloor>time / ?I\<rfloor> + (time / ?I / 2 ^ 51 + 2 powi (- 1075)) \<le> time / ?I"
    and hi: "time / ?I + (time / ?I / 2 ^ 51 + 2 powi (- 1075)) < of_int \<lfloor>time / ?I\<rfloor> + 1"
    and lo': "of_int \<lfloor>?t' / ?I\<rfloor> + (?t' / ?I / 2 ^ 51 + 2 powi (- 1075)) \<le> ?t' / ?I"
    and hi': "?t' / ?I + (?t' / ?I / 2 ^ 51 + 2 powi (- 1075)) < of_int \<lfloor>?t' / ?I\<rfloor> + 1"
  from f(1) have I: "?I \<noteq> 0" "0 < ?I" by simp_all
  then have "0 \<le> of_nat k * (of_nat ?L * ?I)" by simp
  with t(1) have t0: "0 \<le> ?t'" by linarith
  have "\<lfloor>?t' / ?I\<rfloor> = \<lfloor>time / ?I\<rfloor> + int (k * ?L)"
    using I(1) by (rule floor_shift_period)
  then have "\<lfloor>?t' / ?I\<rfloor> mod int ?L = \<lfloor>time / ?I\<rfloor> mod int ?L"
    by simp
  then show "animate_frame config ?t' = animate_frame config time"
    using animate_frame_formula [OF t0 up f ne lo' hi']
      animate_frame_formula [OF t f ne lo hi]
    by (simp only:)
qed

text \<open>
  C3, as stated, fails where the exact quotient is a whole number that the two rounded
  divisions miss. At 15 frames a second the frame interval \<open>1000 / 15\<close> is not a double;
  the code divides the time stamp 1000 by the nearest double, which lies above it, and the
  rounded quotient is \<open>15 - 2 ^ -49\<close>: the code takes step 14 of the three valid frames
  and shows frame 3, where \<open>floor(t / (1000 / fps)) mod 3\<close> is step 0 and frame 0. The
  time stamp 1000 is five periods of \<open>3 * (1000 / 15)\<close> milliseconds after 0, where the
  code shows frame 0: the active frame is not periodic.
\<close>

theorem playback_formula_counterexample:
  "animate_frame fps15_config 1000 = ShowFrame 3
   \<and> animate_frame fps15_config 0 = ShowFrame 0
   \<and> getValidFrames fps15_config = [0, 2, 3]
   \<and> fps fps15_config = 15
   \<and> [0, 2, 3] ! nat (\<lfloor>(1000::rat) / (1000 / 15)\<rfloor> mod 3) = (0::int)
   \<and> (1000::rat) = 0 + 5 * (3 * (1000 / 15))"
proof -
  have fps: "fps fps15_config = 15"
    by (simp add: fps15_config_def)
  have ne: "getValidFrames fps15_config \<noteq> []"
    by (simp add: getValidFrames_fps15)
  have fl: "\<lfloor>(8444249301319679::rat) / 2 ^ 49\<rfloor> = 14"
    by (simp add: floor_eq_iff)
  have q: "tick_quotient (fps fps15_config) 1000 = Some (8444249301319679 / 2 ^ 49)"
    unfolding fps by (rule tick_quotient_15_1000)
  have "animate_frame fps15_config 1000
      = ShowFrame (getValidFrames fps15_config
          ! nat (\<lfloor>(8444249301319679::rat) / 2 ^ 49\<rfloor>
                   mod int (length (getValidFrames fps15_config))))"
    by (rule animate_frame_quotient [OF ne q]) simp
  then have a: "animate_frame fps15_config 1000 = ShowFrame 3"
    unfolding fl getValidFrames_fps15 by simp
  have q0: "tick_quotient (fps fps15_config) 0 = Some 0"
    unfolding fps by (rule tick_quotient_15_0)
  have "animate_frame fps15_config 0
      = ShowFrame (getValidFrames fps15_config
          ! nat (\<lfloor>0::rat\<rfloor> mod int (length (getValidFrames fps15_config))))"
    by (rule animate_frame_quotient [OF ne q0]) simp
  then have b: "animate_frame fps15_config 0 = ShowFrame 0"
    unfolding getValidFrames_fps15 by simp
  have c: "[0, 2, 3] ! nat (\<lfloor>(1000::rat) / (1000 / 15)\<rfloor> mod 3) = (0::int)"
    by simp
  from a b c fps getValidFrames_fps15 show ?thesis by simp
qed

text \<open>
  C3, amended. The playback clock lists the non-excluded indices below \<open>totalFrames\<close> in
  ascending order; with an empty list it renders nothing. Otherwise, for a time stamp
  from 0 to \<open>2 ^ 53\<close> milliseconds and a frame rate from 1 to \<open>2 ^ 53\<close>, the active frame is
  \<open>validFrames[floor(q) mod validFrames.length]\<close> where \<open>q\<close> is the quotient the code
  computes in doubles; \<open>q\<close> differs from the exact \<open>X = t / (1000 / fps)\<close> by at most
  \<open>X / 2 ^ 51 + 2 ^ -1075\<close>, so that the active frame is
  \<open>validFrames[floor(X) mod validFrames.length]\<close> whenever \<open>X\<close> is farther than that from
  \<open>floor(X)\<close> and from \<open>floor(X) + 1\<close>; between two such time stamps that are a whole
  number of periods \<open>validFrames.length * (1000 / fps)\<close> apart the active frame is the
  same. The active frame is always an index in range that is not excluded.
\<close>

theorem playback_clock:
  assumes "0 \<le> time" and "time \<le> 2 ^ 53" and "1 \<le> fps config" and "fps config \<le> 2 ^ 53"
  shows "getValidFrames config
           = filter (\<lambda>i. i \<notin> set (excludedFrames config)) [0..totalFrames config - 1]
       \<and> sorted (getValidFrames config) \<and> distinct (getValidFrames config)
       \<and> (getValidFrames config = [] \<longrightarrow> animate_frame config time = RenderNothing)
       \<and> (getValidFrames config \<noteq> [] \<longrightarrow>
            (\<exists>q. tick_quotient (fps config) time = Some q
               \<and> \<bar>q - time / (1000 / of_int (fps config))\<bar>
                    \<le> time / (1000 / of_int (fps config)) / 2 ^ 51 + 2 powi (- 1075)
               \<and> animate_frame config time
                    = ShowFrame (getValidFrames config
                        ! nat (\<lfloor>q\<rfloor> mod int (length (getValidFrames config))))))
       \<and> (getValidFrames config \<noteq> []
            \<and> of_int \<lfloor>time / (1000 / of_int (fps config))\<rfloor>
                 + (time / (1000 / of_int (fps config)) / 2 ^ 51 + 2 powi (- 1075))
               \<le> time / (1000 / of_int (fps config))
            \<and> time / (1000 / of_int (fps config))
                 + (time / (1000 / of_int (fps config)) / 2 ^ 51 + 2 powi (- 1075))
               < of_int \<lfloor>time / (1000 / of_int (fps config))\<rfloor> + 1 \<longrightarrow>
            animate_frame config time
              = ShowFrame (getValidFrames config
                  ! nat (\<lfloor>time / (1000 / of_int (fps config))\<rfloor>
                           mod int (length (getValidFrames config)))))
       \<and> (\<forall>f. animate_frame config time = ShowFrame f \<longrightarrow>
              f \<notin> set (excludedFrames config) \<and> 0 \<le> f \<and> f < totalFrames config)
       \<and> animate_frame config time \<noteq> ShowUndefined
       \<and> (\<forall>k. let time' = time + of_nat k * (of_nat (length (getValidFrames config))
                                                 * (1000 / of_int (fps config)));
                     X = time / (1000 / of_int (fps config));
                     X' = time' / (1000 / of_int (fps config))
                 in getValidFrames config \<noteq> [] \<and> time' \<le> 2 ^ 53
                    \<and> of_int \<lfloor>X\<rfloor> + (X / 2 ^ 51 + 2 powi (- 1075)) \<le> X
                    \<and> X + (X / 2 ^ 51 + 2 powi (- 1075)) < of_int \<lfloor>X\<rfloor> + 1
                    \<and> of_int \<lfloor>X'\<rfloor> + (X' / 2 ^ 51 + 2 powi (- 1075)) \<le> X'
                    \<and> X' + (X' / 2 ^ 51 + 2 powi (- 1075)) < of_int \<lfloor>X'\<rfloor> + 1
                    \<longrightarrow> animate_frame config time' = animate_frame config time)"
proof -
  let ?vs = "getValidFrames config"
  let ?X = "time / (1000 / of_int (fps config)) :: rat"
  let ?d = "?X / 2 ^ 51 + 2 powi (- 1075) :: rat"
  have empty: "?vs = [] \<longrightarrow> animate_frame config time = RenderNothing"
    by (simp add: animate_frame_def)
  have run: "\<exists>q. tick_quotient (fps config) time = Some q \<and> \<bar>q - ?X\<bar> \<le> ?d
               \<and> animate_frame config time = ShowFrame (?vs ! nat (\<lfloor>q\<rfloor> mod int (length ?vs)))"
    if ne: "?vs \<noteq> []"
  proof -
    from tick_quotient_error [OF assms]
    obtain q where q: "tick_quotient (fps config) time = Some q" and q0: "0 \<le> q"
      and err: "\<bar>q - ?X\<bar> \<le> ?d"
      by blast
    from animate_frame_quotient [OF ne q q0] q err show ?thesis by blast
  qed
  have formula: "?vs \<noteq> [] \<and> of_int \<lfloor>?X\<rfloor> + ?d \<le> ?X \<and> ?X + ?d < of_int \<lfloor>?X\<rfloor> + 1 \<longrightarrow>
      animate_frame config time = ShowFrame (?vs ! nat (\<lfloor>?X\<rfloor> mod int (length ?vs)))"
    using animate_frame_formula [OF assms] by blast
  have member: "f \<notin> set (excludedFrames config) \<and> 0 \<le> f \<and> f < totalFrames config"
    if "animate_frame config time = ShowFrame f" for f
    using animate_frame_member [OF that] by (simp add: getValidFrames_filter)
  have defined: "animate_frame config time \<noteq> ShowUndefined"
  proof (cases "?vs = []")
    case True
    with empty show ?thesis by simp
  next
    case False
    from run [OF this] show ?thesis by auto
  qed
  have asc: "sorted ?vs \<and> distinct ?vs"
    by (simp only: getValidFrames_filter sorted_distinct_filter_upto)
  note per = animate_frame_period [OF assms]
  from getValidFrames_filter [of config] asc empty run formula member defined
  have "getValidFrames config
           = filter (\<lambda>i. i \<notin> set (excludedFrames config)) [0..totalFrames config - 1]
       \<and> sorted ?vs \<and> distinct ?vs
       \<and> (?vs = [] \<longrightarrow> animate_frame config time = RenderNothing)
       \<and> (?vs \<noteq> [] \<longrightarrow>
            (\<exists>q. tick_quotient (fps config) time = Some q \<and> \<bar>q - ?X\<bar> \<le> ?d
               \<and> animate_frame config time
                    = ShowFrame (?vs ! nat (\<lfloor>q\<rfloor> mod int (length ?vs)))))
       \<and> (?vs \<noteq> [] \<and> of_int \<lfloor>?X\<rfloor> + ?d \<le> ?X \<and> ?X + ?d < of_int \<lfloor>?X\<rfloor> + 1 \<longrightarrow>
            animate_frame config time = ShowFrame (?vs ! nat (\<lfloor>?X\<rfloor> mod int (length ?vs))))
       \<and> (\<forall>f. animate_frame config time = ShowFrame f \<longrightarrow>
              f \<notin> set (excludedFrames config) \<and> 0 \<le> f \<and> f < totalFrames config)
       \<and> animate_frame config time \<noteq> ShowUndefined"
    by blast
  with per show ?thesis
    by (elim conjE, intro conjI) assumption+
qed

theorem playback_clock_witness:
  "(0::rat) \<le> 84 \<and> (84::rat) \<le> 2 ^ 53 \<and> 1 \<le> fps scenario_C \<and> fps scenario_C \<le> 2 ^ 53
   \<and> getValidFrames scenario_C = [0, 2, 3]
   \<and> \<lfloor>(84::rat) / (1000 / 12)\<rfloor> = 1
   \<and> animate_frame scenario_C 84 = ShowFrame 2"
proof -
  have vs: "getValidFrames scenario_C = [0, 2, 3]"
    by (simp add: getValidFrames_filter scenario_C_def INITIAL_CONFIG_def upto.simps)
  have fps: "fps scenario_C = 12"
    by (simp add: scenario_C_def INITIAL_CONFIG_def)
  have fl: "\<lfloor>(84::rat) / (1000 / 12)\<rfloor> = 1"
    by (simp add: floor_eq_iff)
  have h: "(0::rat) \<le> 84" "(84::rat) \<le> 2 ^ 53" "1 \<le> fps scenario_C"
    "fps scenario_C \<le> 2 ^ 53"
    by (simp_all add: fps)
  have m: "of_int 1 + ((84::rat) / (1000 / 12) / 2 ^ 51 + 2 powi (- 1075)) \<le> 84 / (1000 / 12)"
    "(84::rat) / (1000 / 12) + (84 / (1000 / 12) / 2 ^ 51 + 2 powi (- 1075)) < of_int 1 + 1"
    by (simp_all add: power_int_minus field_simps)
  from playback_clock [OF h, THEN conjunct2, THEN conjunct2, THEN conjunct2,
      THEN conjunct2, THEN conjunct2, THEN conjunct1]
  have "animate_frame scenario_C 84 = ShowFrame 2"
    unfolding vs fps of_int_numeral fl using m by simp
  with vs fl h show ?thesis by simp
qed

subsection \<open>Chroma keying\<close>

lemma length_chroma_loop [simp]: "length (chroma_loop rBg gBg bBg i data) = length data"
proof (induction rBg gBg bBg i data rule: chroma_loop.induct)
  case (1 rBg gBg bBg i data)
  show ?case
  proof (cases "i < length data")
    case True
    with "1.IH" show ?thesis
      by (subst chroma_loop.simps) (simp add: Let_def)
  next
    case False
    then show ?thesis by (subst chroma_loop.simps) simp
  qed
qed

lemma chroma_loop_below: "j < i \<Longrightarrow> chroma_loop rBg gBg bBg i data ! j = data ! j"
proof (induction rBg gBg bBg i data rule: chroma_loop.induct)
  case (1 rBg gBg bBg i data)
  show ?case
  proof (cases "i < length data")
    case True
    with "1.IH" "1.prems" show ?thesis
      by (subst chroma_loop.simps) (simp add: Let_def)
  next
    case False
    then show ?thesis by (subst chroma_loop.simps) simp
  qed
qed

lemma pixel_bytes_nth:
  assumes "4 * p + 3 < length data"
  shows "pixel_bytes data p
     = [data ! (4 * p), data ! (4 * p + 1), data ! (4 * p + 2), data ! (4 * p + 3)]"
proof (rule nth_equalityI)
  from assms show "length (pixel_bytes data p)
      = length [data ! (4 * p), data ! (4 * p + 1), data ! (4 * p + 2), data ! (4 * p + 3)]"
    by (simp add: pixel_bytes_def)
next
  fix k assume "k < length (pixel_bytes data p)"
  with assms have k: "k < 4" by (simp add: pixel_bytes_def)
  then consider "k = 0" | "k = 1" | "k = 2" | "k = 3" by linarith
  then show "pixel_bytes data p ! k
      = [data ! (4 * p), data ! (4 * p + 1), data ! (4 * p + 2), data ! (4 * p + 3)] ! k"
    using assms by cases (simp_all add: pixel_bytes_def)
qed

lemma dvd4_bound:
  assumes "(4::nat) dvd n" and "4 * p < n"
  shows "4 * p + 3 < n"
proof -
  from assms(1) obtain m where "n = 4 * m" by (elim dvdE)
  with assms(2) show ?thesis by simp
qed

lemma dvd4_next:
  assumes "(4::nat) dvd i" and "i \<le> 4 * p" and "i \<noteq> 4 * p"
  shows "i + 4 \<le> 4 * p"
proof -
  from assms(1) obtain m where "i = 4 * m" by (elim dvdE)
  with assms(2,3) show ?thesis by simp
qed

lemma chroma_loop_step:
  "i < length data \<Longrightarrow>
   chroma_loop rBg gBg bBg i data
     = chroma_loop rBg gBg bBg (i + 4)
         (if keyed rBg gBg bBg data i
          then data[i := 255, i + 1 := 0, i + 2 := 255, i + 3 := 255] else data)"
  by (subst chroma_loop.simps) (simp add: keyed_def KEY_COLOR_RGB_def Let_def)

lemma chroma_loop_done: "\<not> i < length data \<Longrightarrow> chroma_loop rBg gBg bBg i data = data"
  by (subst chroma_loop.simps) simp

lemma keyed_cong:
  assumes "length d' = length d"
    and "d' ! j = d ! j" and "d' ! (j + 1) = d ! (j + 1)"
    and "d' ! (j + 2) = d ! (j + 2)" and "d' ! (j + 3) = d ! (j + 3)"
  shows "keyed rBg gBg bBg d' j = keyed rBg gBg bBg d j"
  using assms by (simp add: keyed_def rd_def)

lemma pixel_bytes_cong:
  assumes "4 * p + 3 < length d" and "length d' = length d"
    and "d' ! (4 * p) = d ! (4 * p)" and "d' ! (4 * p + 1) = d ! (4 * p + 1)"
    and "d' ! (4 * p + 2) = d ! (4 * p + 2)" and "d' ! (4 * p + 3) = d ! (4 * p + 3)"
  shows "pixel_bytes d' p = pixel_bytes d p"
  using assms by (simp add: pixel_bytes_nth)

lemma chroma_loop_pixel:
  assumes "4 dvd i" and "4 dvd length data" and "i \<le> 4 * p" and "4 * p < length data"
  shows "pixel_bytes (chroma_loop rBg gBg bBg i data) p
     = (if keyed rBg gBg bBg data (4 * p) then [255, 0, 255, 255] else pixel_bytes data p)"
  using assms
proof (induction "length data - i" arbitrary: i data rule: less_induct)
  case less
  note prems = less.prems
  define data' where "data' = (if keyed rBg gBg bBg data i
          then data[i := 255, i + 1 := 0, i + 2 := 255, i + 3 := 255] else data)"
  from prems have i: "i < length data" by simp
  have len': "length data' = length data" by (simp add: data'_def)
  from prems have p3: "4 * p + 3 < length data" by (simp add: dvd4_bound)
  have step: "chroma_loop rBg gBg bBg i data = chroma_loop rBg gBg bBg (i + 4) data'"
    unfolding data'_def using i by (rule chroma_loop_step)
  have IH: "pixel_bytes (chroma_loop rBg gBg bBg (i + 4) data') p
        = (if keyed rBg gBg bBg data' (4 * p) then [255, 0, 255, 255]
           else pixel_bytes data' p)" if "i + 4 \<le> 4 * p"
  proof (rule less.hyps)
    show "length data' - (i + 4) < length data - i" using i by (simp add: len')
    show "4 dvd i + 4" using prems(1) by simp
    show "4 dvd length data'" using prems(2) by (simp add: len')
    show "i + 4 \<le> 4 * p" by (rule that)
    show "4 * p < length data'" using prems(4) by (simp add: len')
  qed
  show ?case
  proof (cases "i = 4 * p")
    case True
    have "pixel_bytes (chroma_loop rBg gBg bBg (i + 4) data') p = pixel_bytes data' p"
      using p3 True by (simp add: pixel_bytes_nth chroma_loop_below len')
    also have "\<dots> = (if keyed rBg gBg bBg data (4 * p) then [255, 0, 255, 255]
                      else pixel_bytes data p)"
      using p3 True by (simp add: pixel_bytes_nth data'_def)
    finally show ?thesis by (simp only: step)
  next
    case False
    with prems have next4: "i + 4 \<le> 4 * p" by (simp add: dvd4_next)
    have same: "data' ! (4 * p + c) = data ! (4 * p + c)" for c
      using next4 by (simp add: data'_def)
    have k: "keyed rBg gBg bBg data' (4 * p) = keyed rBg gBg bBg data (4 * p)"
      using len' same [of 0, simplified] same [of 1] same [of 2] same [of 3]
      by (rule keyed_cong)
    have pb: "pixel_bytes data' p = pixel_bytes data p"
      using p3 len' same [of 0, simplified] same [of 1] same [of 2] same [of 3]
      by (rule pixel_bytes_cong)
    from IH [OF next4] show ?thesis
      by (simp only: step k pb)
  qed
qed

lemma applyChromaKey_pixel:
  assumes "4 dvd length data" and "4 * p < length data"
  shows "pixel_bytes (applyChromaKey_data data) p
     = (if keyed (rd data 0) (rd data 1) (rd data 2) data (4 * p) then [255, 0, 255, 255]
        else pixel_bytes data p)"
  using assms by (simp add: applyChromaKey_data_def chroma_loop_pixel)

lemma keyed_bytes:
  assumes "4 dvd length data" and "4 * p < length data"
  shows "keyed (rd data 0) (rd data 1) (rd data 2) data (4 * p)
     \<longleftrightarrow> (\<bar>uint (data ! (4 * p)) - uint (data ! 0)\<bar> < 20
          \<and> \<bar>uint (data ! (4 * p + 1)) - uint (data ! 1)\<bar> < 20
          \<and> \<bar>uint (data ! (4 * p + 2)) - uint (data ! 2)\<bar> < 20)
        \<or> uint (data ! (4 * p + 3)) < 10"
proof -
  from assms have p3: "4 * p + 3 < length data" by (rule dvd4_bound)
  then have r: "rd data 0 = Some (data ! 0)" "rd data 1 = Some (data ! 1)"
    "rd data 2 = Some (data ! 2)" "rd data (4 * p) = Some (data ! (4 * p))"
    "rd data (4 * p + 1) = Some (data ! (4 * p + 1))"
    "rd data (4 * p + 2) = Some (data ! (4 * p + 2))"
    "rd data (4 * p + 3) = Some (data ! (4 * p + 3))"
    by (auto simp add: rd_def)
  show ?thesis
    unfolding keyed_def r abs_diff_lt_def js_lt_def tolerance_def by simp
qed

text \<open>
  C4, as stated, fails on the boundary: a pixel whose red channel differs from the
  reference by exactly 20 is within the tolerance 20, yet the code, which compares with
  \<open><\<close>, leaves it unchanged.
\<close>

theorem chroma_key_tolerance_counterexample:
  "\<not> (pixel_bytes (applyChromaKey_data [100, 100, 100, 255, 120, 100, 100, 255]) 1
         = [255, 0, 255, 255]
       \<longleftrightarrow> spec_should_key [100, 100, 100, 255, 120, 100, 100, 255] 1)"
proof -
  have "applyChromaKey_data [100, 100, 100, 255, 120, 100, 100, 255]
      = [255, 0, 255, 255, 120, 100, 100, 255]"
    by (simp add: applyChromaKey_data_def chroma_loop_step chroma_loop_done keyed_def rd_def
        abs_diff_lt_def js_lt_def tolerance_def)
  then have "pixel_bytes (applyChromaKey_data [100, 100, 100, 255, 120, 100, 100, 255]) 1
      = [120, 100, 100, 255]"
    by (simp add: pixel_bytes_def)
  moreover have "spec_should_key [100, 100, 100, 255, 120, 100, 100, 255] 1"
    by (simp add: spec_should_key_def)
  ultimately show ?thesis by simp
qed

text \<open>
  C4, amended. The reference colour is the top-left pixel of the buffer. A pixel is
  rewritten to the key colour (255, 0, 255) at alpha 255 exactly when each of its three
  colour channels differs from the reference by strictly less than 20, or its alpha is
  strictly below 10; every other pixel, in particular every pixel with a channel that
  differs by more than 20 and an alpha of at least 10, keeps its four bytes. The buffer
  keeps its length.
\<close>

theorem chroma_key_pixels:
  assumes "4 dvd length data" and "4 * p < length data"
  shows "length (applyChromaKey_data data) = length data
       \<and> pixel_bytes (applyChromaKey_data data) p
           = (if (\<bar>uint (data ! (4 * p)) - uint (data ! 0)\<bar> < 20
                    \<and> \<bar>uint (data ! (4 * p + 1)) - uint (data ! 1)\<bar> < 20
                    \<and> \<bar>uint (data ! (4 * p + 2)) - uint (data ! 2)\<bar> < 20)
                 \<or> uint (data ! (4 * p + 3)) < 10
              then [255, 0, 255, 255] else pixel_bytes data p)
       \<and> ((\<bar>uint (data ! (4 * p)) - uint (data ! 0)\<bar> > 20
              \<or> \<bar>uint (data ! (4 * p + 1)) - uint (data ! 1)\<bar> > 20
              \<or> \<bar>uint (data ! (4 * p + 2)) - uint (data ! 2)\<bar> > 20)
            \<and> uint (data ! (4 * p + 3)) \<ge> 10
            \<longrightarrow> pixel_bytes (applyChromaKey_data data) p = pixel_bytes data p)"
proof -
  have "length (applyChromaKey_data data) = length data"
    by (simp add: applyChromaKey_data_def)
  moreover note applyChromaKey_pixel [OF assms] keyed_bytes [OF assms]
  ultimately show ?thesis by auto
qed

theorem chroma_key_pixels_witness:
  "pixel_bytes (applyChromaKey_data [100, 100, 100, 255, 119, 100, 100, 255, 7, 8, 9, 255]) 1
     = [255, 0, 255, 255]
   \<and> pixel_bytes (applyChromaKey_data [100, 100, 100, 255, 119, 100, 100, 255, 7, 8, 9, 255]) 2
     = [7, 8, 9, 255]"
proof -
  let ?d = "[100, 100, 100, 255, 119, 100, 100, 255, 7, 8, 9, 255] :: byte list"
  have len: "length ?d = 12" by simp
  have d: "4 dvd length ?d" and p1: "4 * 1 < length ?d" and p2: "4 * 2 < length ?d"
    unfolding len by simp_all
  have "pixel_bytes (applyChromaKey_data ?d) 1 = [255, 0, 255, 255]"
    using chroma_key_pixels [OF d p1, THEN conjunct2, THEN conjunct1] by simp
  moreover have "pixel_bytes (applyChromaKey_data ?d) 2 = [7, 8, 9, 255]"
    using chroma_key_pixels [OF d p2, THEN conjunct2, THEN conjunct1]
    by (simp add: pixel_bytes_def)
  ultimately show ?thesis by simp
qed

text \<open>
  C10. After chroma keying a non-empty buffer, the top-left pixel is the key colour
  (255, 0, 255) at alpha 255, whatever it held: the reference colour is that very pixel.
\<close>

theorem chroma_key_top_left:
  assumes "data \<noteq> []" and "4 dvd length data"
  shows "pixel_bytes (applyChromaKey_data data) 0 = [255, 0, 255, 255]"
proof -
  from assms have p0: "4 * 0 < length data" by simp
  with assms(2) have "4 * 0 + 3 < length data" by (rule dvd4_bound)
  then have r: "rd data 0 = Some (data ! 0)" "rd data 1 = Some (data ! 1)"
    "rd data 2 = Some (data ! 2)" "rd data (0 + 1) = Some (data ! 1)"
    "rd data (0 + 2) = Some (data ! 2)"
    by (auto simp add: rd_def numeral_2_eq_2)
  have "keyed (rd data 0) (rd data 1) (rd data 2) data 0"
    unfolding keyed_def r by (simp add: abs_diff_lt_def tolerance_def)
  then have "keyed (rd data 0) (rd data 1) (rd data 2) data (4 * 0)" by simp
  with applyChromaKey_pixel [OF assms(2) p0] show ?thesis by simp
qed

theorem chroma_key_top_left_witness:
  "pixel_bytes (applyChromaKey_data [10, 200, 30, 255, 90, 90, 90, 255]) 0 = [255, 0, 255, 255]
   \<and> applyChromaKey_data [10, 200, 30, 255, 90, 90, 90, 255]
       = [255, 0, 255, 255, 90, 90, 90, 255]"
proof -
  have "applyChromaKey_data [10, 200, 30, 255, 90, 90, 90, 255]
       = [255, 0, 255, 255, 90, 90, 90, 255]"
    by (simp add: applyChromaKey_data_def chroma_loop_step chroma_loop_done keyed_def rd_def
        abs_diff_lt_def js_lt_def tolerance_def)
  moreover have "pixel_bytes (applyChromaKey_data [10, 200, 30, 255, 90, 90, 90, 255]) 0
      = [255, 0, 255, 255]"
  proof (rule chroma_key_top_left)
    have len: "length [10, 200, 30, 255, 90, 90, 90, 255 :: byte] = 8" by simp
    show "4 dvd length [10, 200, 30, 255, 90, 90, 90, 255 :: byte]"
      unfolding len by simp
  qed simp
  ultimately show ?thesis by simp
qed

subsection \<open>Assembling the animation\<close>

lemma framesToRender_empty_iff:
  "framesToRender config = []
     \<longleftrightarrow> (\<forall>i. 0 \<le> i \<and> i < totalFrames config \<longrightarrow> i \<in> set (excludedFrames config))"
  by (auto simp add: framesToRender_filter filter_empty_conv)

lemma generateGif_no_frames:
  assumes "framesToRender config = []"
  shows "generateGif paint worker_ok ctx_ok img config dimensions
     = ([], Inl (if \<not> worker_ok then WorkerFetchFailed
                 else if \<not> ctx_ok then NoCanvasContext else NoValidFrames))"
  using assms by (simp add: generateGif_def Let_def)

lemma render_frame_error:
  "render_frame paint img config fw fh canvas index = Inl e \<Longrightarrow> e = IndexSizeError"
  by (auto simp add: render_frame_def applyChromaKey_def addFrame_def Let_def
      split: if_splits sum.splits)

lemma render_frames_error:
  "render_frames paint img config fw fh frames canvas subs = (subs', Some e)
     \<Longrightarrow> e = IndexSizeError"
proof (induction frames arbitrary: canvas subs)
  case Nil
  then show ?case by simp
next
  case (Cons index rest)
  show ?case
  proof (cases "render_frame paint img config fw fh canvas index")
    case (Inl e')
    with Cons.prems show ?thesis
      by (auto dest: render_frame_error)
  next
    case (Inr r)
    with Cons.prems Cons.IH show ?thesis
      by (cases r) auto
  qed
qed

lemma generateGif_some_frames:
  assumes "framesToRender config \<noteq> []"
  shows "snd (generateGif paint worker_ok ctx_ok img config dimensions) \<noteq> Inl NoValidFrames"
proof (cases "render_frames paint img config
    (of_nat (width dimensions) / of_int (cols config))
    (of_nat (height dimensions) / of_int (rows config))
    (framesToRender config)
    (set_canvas_size (of_nat (width dimensions) / of_int (cols config))
       (of_nat (height dimensions) / of_int (rows config))) []")
  case (Pair subs err)
  then have "err \<noteq> Some NoValidFrames"
    by (auto dest: render_frames_error)
  with assms Pair show ?thesis
    by (cases err) (simp_all add: generateGif_def Let_def)
qed

lemma generateGifAsset_no_frames:
  assumes "framesToRender (group_config grp) = []"
  shows "fst (generateGifAsset br grp st) = st"
  by (simp add: generateGifAsset_def generateGif_no_frames [OF assms]
      split: option.splits)

text \<open>
  C5. The exporter enumerates the indices below \<open>totalFrames\<close> that are not excluded, in
  ascending order. When every index in \<open>[0, totalFrames)\<close> is excluded, the list is empty,
  \<open>generateGif\<close> fails, with the no-frames error whenever the browser provided the worker
  script and a canvas context, no frame has been handed to the codec, and
  \<open>generateGifAsset\<close> leaves the application state, hence the saved assets, as they were.
  When some index is not excluded, the list is not empty and the no-frames error does
  not occur.
\<close>

theorem assemble_no_frames:
  "framesToRender config
      = filter (\<lambda>i. i \<notin> set (excludedFrames config)) [0..totalFrames config - 1]
   \<and> sorted (framesToRender config) \<and> distinct (framesToRender config)
   \<and> ((\<forall>i. 0 \<le> i \<and> i < totalFrames config \<longrightarrow> i \<in> set (excludedFrames config)) \<longrightarrow>
         framesToRender config = []
         \<and> fst (generateGif paint worker_ok ctx_ok img config dimensions) = []
         \<and> (\<exists>e. snd (generateGif paint worker_ok ctx_ok img config dimensions) = Inl e)
         \<and> (worker_ok \<and> ctx_ok \<longrightarrow>
               snd (generateGif paint worker_ok ctx_ok img config dimensions)
                 = Inl NoValidFrames)
         \<and> (\<forall>br grp st. group_config grp = config \<longrightarrow>
               fst (generateGifAsset br grp st) = st
               \<and> savedAssets (fst (generateGifAsset br grp st)) = savedAssets st))
   \<and> (\<not> (\<forall>i. 0 \<le> i \<and> i < totalFrames config \<longrightarrow> i \<in> set (excludedFrames config)) \<longrightarrow>
         framesToRender config \<noteq> []
         \<and> snd (generateGif paint worker_ok ctx_ok img config dimensions)
             \<noteq> Inl NoValidFrames)"
proof -
  have asc: "sorted (framesToRender config) \<and> distinct (framesToRender config)"
    by (simp only: framesToRender_filter sorted_distinct_filter_upto)
  have none: "framesToRender config = []
         \<and> fst (generateGif paint worker_ok ctx_ok img config dimensions) = []
         \<and> (\<exists>e. snd (generateGif paint worker_ok ctx_ok img config dimensions) = Inl e)
         \<and> (worker_ok \<and> ctx_ok \<longrightarrow>
               snd (generateGif paint worker_ok ctx_ok img config dimensions)
                 = Inl NoValidFrames)
         \<and> (\<forall>br grp st. group_config grp = config \<longrightarrow>
               fst (generateGifAsset br grp st) = st
               \<and> savedAssets (fst (generateGifAsset br grp st)) = savedAssets st)"
    if "\<forall>i. 0 \<le> i \<and> i < totalFrames config \<longrightarrow> i \<in> set (excludedFrames config)"
  proof -
    from that have e: "framesToRender config = []"
      by (simp only: framesToRender_empty_iff)
    show ?thesis
      using e by (simp add: generateGif_no_frames generateGifAsset_no_frames)
  qed
  have some: "framesToRender config \<noteq> []
         \<and> snd (generateGif paint worker_ok ctx_ok img config dimensions)
             \<noteq> Inl NoValidFrames"
    if "\<not> (\<forall>i. 0 \<le> i \<and> i < totalFrames config \<longrightarrow> i \<in> set (excludedFrames config))"
  proof -
    from that have "framesToRender config \<noteq> []"
      using framesToRender_empty_iff [of config] by blast
    then show ?thesis
      by (simp add: generateGif_some_frames)
  qed
  from framesToRender_filter [of config] asc none some show ?thesis
    by blast
qed

theorem assemble_no_frames_witness:
  "totalFrames scenario_D = 2 \<and> excludedFrames scenario_D = [0, 1]
   \<and> generateGif nearest_paint True True demo_image scenario_D demo_dimensions
       = ([], Inl NoValidFrames)
   \<and> totalFrames scenario_C = 4 \<and> excludedFrames scenario_C = [1]
   \<and> framesToRender scenario_C \<noteq> []"
proof -
  have all: "\<forall>i. 0 \<le> i \<and> i < totalFrames scenario_D \<longrightarrow> i \<in> set (excludedFrames scenario_D)"
  proof (intro allI impI)
    fix i :: int
    assume "0 \<le> i \<and> i < totalFrames scenario_D"
    then have "i = 0 \<or> i = 1"
      by (auto simp add: scenario_D_def INITIAL_CONFIG_def)
    then show "i \<in> set (excludedFrames scenario_D)"
      by (auto simp add: scenario_D_def)
  qed
  have some: "\<not> (\<forall>i. 0 \<le> i \<and> i < totalFrames scenario_C
      \<longrightarrow> i \<in> set (excludedFrames scenario_C))"
    by (auto simp add: scenario_C_def INITIAL_CONFIG_def intro!: exI [of _ 0])
  note D = assemble_no_frames [of scenario_D nearest_paint True True demo_image demo_dimensions,
      THEN conjunct2, THEN conjunct2, THEN conjunct2, THEN conjunct1, THEN mp, OF all]
  note C = assemble_no_frames [of scenario_C nearest_paint True True demo_image demo_dimensions,
      THEN conjunct2, THEN conjunct2, THEN conjunct2, THEN conjunct2, THEN mp, OF some]
  from D have "fst (generateGif nearest_paint True True demo_image scenario_D demo_dimensions)
      = []"
    and "snd (generateGif nearest_paint True True demo_image scenario_D demo_dimensions)
      = Inl NoValidFrames"
    by simp_all
  then have "generateGif nearest_paint True True demo_image scenario_D demo_dimensions
       = ([], Inl NoValidFrames)"
    by (simp add: prod_eq_iff)
  moreover have "totalFrames scenario_D = 2 \<and> excludedFrames scenario_D = [0, 1]"
    "totalFrames scenario_C = 4 \<and> excludedFrames scenario_C = [1]"
    by (simp_all add: scenario_D_def scenario_C_def INITIAL_CONFIG_def)
  ultimately show ?thesis using C by simp
qed

lemma render_frame_ok:
  assumes "canvas_dim fw \<noteq> 0 \<and> canvas_dim fh \<noteq> 0"
  shows "\<exists>canvas' sub. render_frame paint img config fw fh canvas index = Inr (canvas', sub)"
  using assms by (auto simp add: render_frame_def applyChromaKey_def addFrame_def Let_def)

lemma render_frame_empty:
  assumes "canvas_dim fw = 0 \<or> canvas_dim fh = 0"
  shows "render_frame paint img config fw fh canvas index = Inl IndexSizeError"
  using assms by (auto simp add: render_frame_def applyChromaKey_def addFrame_def Let_def)

lemma render_frames_ok:
  assumes "canvas_dim fw \<noteq> 0 \<and> canvas_dim fh \<noteq> 0"
  shows "\<exists>subs'. render_frames paint img config fw fh frames canvas subs = (subs', None)
           \<and> length subs' = length subs + length frames"
proof (induction frames arbitrary: canvas subs)
  case Nil
  then show ?case by simp
next
  case (Cons index rest)
  from render_frame_ok [OF assms] obtain canvas' sub
    where rf: "render_frame paint img config fw fh canvas index = Inr (canvas', sub)"
    by blast
  from Cons.IH [of canvas' "subs @ [sub]"] obtain subs'
    where "render_frames paint img config fw fh rest canvas' (subs @ [sub]) = (subs', None)"
      and "length subs' = length (subs @ [sub]) + length rest"
    by blast
  with rf show ?case by simp
qed

lemma generateGif_ok:
  assumes "worker_ok" and "ctx_ok" and "framesToRender config \<noteq> []"
    and "canvas_dim (of_nat (width dimensions) / of_int (cols config)) \<noteq> 0
         \<and> canvas_dim (of_nat (height dimensions) / of_int (rows config)) \<noteq> 0"
  shows "\<exists>subs gif. generateGif paint worker_ok ctx_ok img config dimensions
             = (subs, Inr (Blob gif subs))
           \<and> length subs = length (framesToRender config)"
proof -
  let ?fw = "of_nat (width dimensions) / of_int (cols config) :: rat"
  let ?fh = "of_nat (height dimensions) / of_int (rows config) :: rat"
  from render_frames_ok [OF assms(4), where paint = paint and img = img and config = config
      and frames = "framesToRender config" and canvas = "set_canvas_size ?fw ?fh"
      and subs = "[]"]
  obtain subs where "render_frames paint img config ?fw ?fh (framesToRender config)
      (set_canvas_size ?fw ?fh) [] = (subs, None)"
    and "length subs = length (framesToRender config)"
    by auto
  with assms(1-3) show ?thesis
    by (simp add: generateGif_def Let_def)
qed

lemma generateGif_empty:
  assumes "worker_ok" and "ctx_ok" and "framesToRender config \<noteq> []"
    and "canvas_dim (of_nat (width dimensions) / of_int (cols config)) = 0
         \<or> canvas_dim (of_nat (height dimensions) / of_int (rows config)) = 0"
  shows "generateGif paint worker_ok ctx_ok img config dimensions = ([], Inl IndexSizeError)"
proof -
  from assms(3) obtain index rest where fr: "framesToRender config = index # rest"
    by (cases "framesToRender config") simp_all
  with assms(1,2) render_frame_empty [OF assms(4)] show ?thesis
    by (simp add: generateGif_def Let_def)
qed

subsection \<open>Exporting and deleting a group\<close>

lemma framesToRender_demo: "framesToRender demo_config = [0, 1]"
  by (simp add: framesToRender_filter demo_config_def INITIAL_CONFIG_def upto.simps)

lemma canvas_dim_demo:
  "canvas_dim (of_nat (width demo_dimensions) / of_int (cols demo_config)) = 2"
  "canvas_dim (of_nat (height demo_dimensions) / of_int (rows demo_config)) = 2"
  by (simp_all add: canvas_dim_def demo_dimensions_def demo_config_def INITIAL_CONFIG_def)

lemma exported_state_assets:
  "map asset_name (savedAssets exported_state) = [''sprite-c0ff.gif'']
   \<and> map asset_type (savedAssets exported_state) = [Gif]"
proof -
  have "\<exists>subs gif. generateGif nearest_paint True True demo_image demo_config demo_dimensions
             = (subs, Inr (Blob gif subs))
           \<and> length subs = length (framesToRender demo_config)"
    by (rule generateGif_ok) (simp_all add: framesToRender_demo canvas_dim_demo)
  then obtain subs gif where
    "generateGif nearest_paint True True demo_image demo_config demo_dimensions
       = (subs, Inr (Blob gif subs))"
    by blast
  then show ?thesis
    by (simp add: exported_state_def generateGifAsset_def demo_browser_def demo_group_def
        demo_state_def)
qed

text \<open>
  C9, as stated, fails: after a group has been exported and then deleted, the group is
  gone but its exported asset, with the object URL that holds the blob, is still in
  \<open>savedAssets\<close>.
\<close>

theorem deleteGroup_keeps_assets_counterexample:
  "groups (deleteGroup ''c0ffee00-0001'' exported_state) ''c0ffee00-0001'' = None
   \<and> map asset_name (savedAssets (deleteGroup ''c0ffee00-0001'' exported_state))
       = [''sprite-c0ff.gif'']
   \<and> savedAssets (deleteGroup ''c0ffee00-0001'' exported_state) = savedAssets exported_state"
  using exported_state_assets by (simp add: deleteGroup_def)

text \<open>
  C9, amended. Deleting a group removes the group and every node of the group, keeps
  the other groups and nodes, clears the selection when the deleted group was selected,
  and leaves the saved assets as they are.
\<close>

theorem deleteGroup_effect:
  "groups (deleteGroup gid st) gid = None
   \<and> (\<forall>g. g \<noteq> gid \<longrightarrow> groups (deleteGroup gid st) g = groups st g)
   \<and> nodes (deleteGroup gid st) = filter (\<lambda>n. groupId n \<noteq> gid) (nodes st)
   \<and> gid \<notin> groupId ` set (nodes (deleteGroup gid st))
   \<and> (selectedGroupId st = Some gid \<longrightarrow> selectedGroupId (deleteGroup gid st) = None)
   \<and> (selectedGroupId st \<noteq> Some gid \<longrightarrow>
         selectedGroupId (deleteGroup gid st) = selectedGroupId st)
   \<and> savedAssets (deleteGroup gid st) = savedAssets st"
proof -
  have grp: "groups (deleteGroup gid st) = (groups st)(gid := None)"
    and nds: "nodes (deleteGroup gid st) = filter (\<lambda>n. groupId n \<noteq> gid) (nodes st)"
    and sel: "selectedGroupId (deleteGroup gid st)
        = (if selectedGroupId st = Some gid then None else selectedGroupId st)"
    and assets: "savedAssets (deleteGroup gid st) = savedAssets st"
    by (simp_all add: deleteGroup_def)
  have gone: "gid \<notin> groupId ` set (nodes (deleteGroup gid st))"
    unfolding nds by auto
  from grp have "groups (deleteGroup gid st) gid = None"
    and "\<forall>g. g \<noteq> gid \<longrightarrow> groups (deleteGroup gid st) g = groups st g"
    by simp_all
  with nds gone sel assets show ?thesis by simp
qed

theorem deleteGroup_effect_witness:
  "selectedGroupId demo_state = Some ''c0ffee00-0001''
   \<and> selectedGroupId (deleteGroup ''c0ffee00-0001'' demo_state) = None
   \<and> ''0ther000-0003'' \<noteq> ''c0ffee00-0001''
   \<and> groups (deleteGroup ''c0ffee00-0001'' demo_state) ''0ther000-0003''
       = groups demo_state ''0ther000-0003''
   \<and> map node_id (nodes (deleteGroup ''c0ffee00-0001'' demo_state)) = [''n3'']
   \<and> selectedGroupId demo_state \<noteq> Some ''0ther000-0003''
   \<and> selectedGroupId (deleteGroup ''0ther000-0003'' demo_state) = selectedGroupId demo_state"
  using deleteGroup_effect [of "''c0ffee00-0001''" demo_state]
    deleteGroup_effect [of "''0ther000-0003''" demo_state]
  by (simp add: demo_state_def)

subsection \<open>Retrying calls to the image service\<close>

lemma isTransient_busy_message: "isTransient busy_message"
  by (simp add: isTransient_def busy_message_def)

lemma retry_Inr:
  "operation calls = Inr v \<Longrightarrow>
   retryOperation operation calls retries delay = (Inr v, calls + 1, [])"
  by (simp add: retryOperation.simps [of operation calls retries delay])

lemma retry_Inl_again:
  "operation calls = Inl e \<Longrightarrow> 0 < retries \<Longrightarrow> isTransient e \<Longrightarrow>
   retryOperation operation calls retries delay
     = (case retryOperation operation (calls + 1) (retries - 1) (delay * 2) of
          (r, n, ds) \<Rightarrow> (r, n, delay # ds))"
  by (simp add: retryOperation.simps [of operation calls retries delay])

lemma retryOperation_run:
  "\<exists>n. retryOperation operation calls retries delay
          = (operation (n - 1), n, map (\<lambda>k. delay * 2 ^ k) [0..<n - calls - 1])
      \<and> calls < n \<and> n \<le> calls + retries + 1
      \<and> (\<forall>k. calls \<le> k \<and> k < n - 1 \<longrightarrow> (\<exists>e. operation k = Inl e \<and> isTransient e))
      \<and> ((\<exists>v. operation (n - 1) = Inr v)
          \<or> (\<exists>e. operation (n - 1) = Inl e \<and> \<not> isTransient e)
          \<or> n = calls + retries + 1)"
proof (induction retries arbitrary: calls delay)
  case 0
  show ?case
    by (rule exI [of _ "calls + 1"])
      (auto simp add: retryOperation.simps [of operation calls 0] split: sum.splits)
next
  case (Suc retries)
  show ?case
  proof (cases "operation calls")
    case (Inr v)
    then show ?thesis
      by (intro exI [of _ "calls + 1"])
        (auto simp add: retryOperation.simps [of operation calls "Suc retries"])
  next
    case (Inl e)
    show ?thesis
    proof (cases "isTransient e")
      case False
      with Inl show ?thesis
        by (intro exI [of _ "calls + 1"])
          (auto simp add: retryOperation.simps [of operation calls "Suc retries"])
    next
      case True
      from Suc.IH [of "calls + 1" "delay * 2"] obtain n where
        run: "retryOperation operation (calls + 1) retries (delay * 2)
          = (operation (n - 1), n, map (\<lambda>k. delay * 2 * 2 ^ k) [0..<n - (calls + 1) - 1])"
        and bounds: "calls + 1 < n" "n \<le> calls + 1 + retries + 1"
        and before: "\<forall>k. calls + 1 \<le> k \<and> k < n - 1
            \<longrightarrow> (\<exists>e. operation k = Inl e \<and> isTransient e)"
        and stop: "(\<exists>v. operation (n - 1) = Inr v)
          \<or> (\<exists>e. operation (n - 1) = Inl e \<and> \<not> isTransient e)
          \<or> n = calls + 1 + retries + 1"
        by blast
      from bounds have m: "n - calls - 1 = Suc (n - (calls + 1) - 1)"
        by simp
      have lst: "map (\<lambda>k. delay * 2 ^ k) [0..<n - calls - 1]
          = delay # map (\<lambda>k. delay * 2 * 2 ^ k) [0..<n - (calls + 1) - 1]"
        unfolding m by (simp only: map_upt_Suc) (simp add: mult.assoc)
      have "retryOperation operation calls (Suc retries) delay
          = (operation (n - 1), n, map (\<lambda>k. delay * 2 ^ k) [0..<n - calls - 1])"
        unfolding lst using Inl True run
        by (simp add: retryOperation.simps [of operation calls "Suc retries"])
      moreover have "\<forall>k. calls \<le> k \<and> k < n - 1 \<longrightarrow> (\<exists>e. operation k = Inl e \<and> isTransient e)"
      proof (intro allI impI)
        fix k assume k: "calls \<le> k \<and> k < n - 1"
        show "\<exists>e. operation k = Inl e \<and> isTransient e"
        proof (cases "k = calls")
          case True
          with Inl \<open>isTransient e\<close> show ?thesis by simp
        next
          case False
          with k before show ?thesis by simp
        qed
      qed
      ultimately show ?thesis
        using bounds stop by (intro exI [of _ n]) simp
    qed
  qed
qed

lemma backoff_delays:
  assumes "n \<le> 4"
  shows "map (\<lambda>k. 1000 * 2 ^ k) [0..<n - 0 - 1] = take (n - 1) [1000, 2000, 4000 :: nat]"
proof -
  from assms consider "n = 0" | "n = 1" | "n = 2" | "n = 3" | "n = 4" by linarith
  then show ?thesis
    by cases (simp_all add: upt_conv_Cons)
qed

lemma retry_default_run:
  "\<exists>n. retryOperation_default operation
          = (operation (n - 1), n, take (n - 1) [1000, 2000, 4000])
      \<and> 1 \<le> n \<and> n \<le> 4
      \<and> (\<forall>k. k < n - 1 \<longrightarrow> (\<exists>e. operation k = Inl e \<and> isTransient e))
      \<and> ((\<exists>v. operation (n - 1) = Inr v)
          \<or> (\<exists>e. operation (n - 1) = Inl e \<and> \<not> isTransient e)
          \<or> n = 4)"
proof -
  from retryOperation_run [of operation 0 3 1000] obtain n where
    all: "retryOperation operation 0 3 1000
          = (operation (n - 1), n, map (\<lambda>k. 1000 * 2 ^ k) [0..<n - 0 - 1])
      \<and> 0 < n \<and> n \<le> 0 + 3 + 1
      \<and> (\<forall>k. 0 \<le> k \<and> k < n - 1 \<longrightarrow> (\<exists>e. operation k = Inl e \<and> isTransient e))
      \<and> ((\<exists>v. operation (n - 1) = Inr v)
          \<or> (\<exists>e. operation (n - 1) = Inl e \<and> \<not> isTransient e)
          \<or> n = 0 + 3 + 1)" ..
  note run = all [THEN conjunct1]
  note pos = all [THEN conjunct2, THEN conjunct1]
  note le = all [THEN conjunct2, THEN conjunct2, THEN conjunct1]
  note before = all [THEN conjunct2, THEN conjunct2, THEN conjunct2, THEN conjunct1]
  note stop = all [THEN conjunct2, THEN conjunct2, THEN conjunct2, THEN conjunct2]
  from le have n4: "n \<le> 4" by simp
  have res: "retryOperation_default operation
      = (operation (n - 1), n, take (n - 1) [1000, 2000, 4000])"
    by (simp only: retryOperation_default_def run backoff_delays [OF n4])
  from pos have "1 \<le> n" by simp
  moreover from before
  have "\<forall>k. k < n - 1 \<longrightarrow> (\<exists>e. operation k = Inl e \<and> isTransient e)"
    by simp
  moreover from stop have "(\<exists>v. operation (n - 1) = Inr v)
          \<or> (\<exists>e. operation (n - 1) = Inl e \<and> \<not> isTransient e) \<or> n = 4"
    by simp
  ultimately show ?thesis
    using res n4 by (intro exI [of _ n] conjI)
qed

lemma retry_first_only:
  assumes "\<not> (\<exists>e. operation 0 = Inl e \<and> isTransient e)"
  shows "retryOperation_default operation = (operation 0, 1, [])"
proof -
  from retry_default_run [of operation] obtain n where
    all: "retryOperation_default operation
          = (operation (n - 1), n, take (n - 1) [1000, 2000, 4000])
      \<and> 1 \<le> n \<and> n \<le> 4
      \<and> (\<forall>k. k < n - 1 \<longrightarrow> (\<exists>e. operation k = Inl e \<and> isTransient e))
      \<and> ((\<exists>v. operation (n - 1) = Inr v)
          \<or> (\<exists>e. operation (n - 1) = Inl e \<and> \<not> isTransient e)
          \<or> n = 4)" ..
  note run = all [THEN conjunct1]
  note pos = all [THEN conjunct2, THEN conjunct1]
  note before = all [THEN conjunct2, THEN conjunct2, THEN conjunct2, THEN conjunct1]
  have "\<not> 0 < n - 1"
  proof
    assume a: "0 < n - 1"
    from assms before [rule_format, OF a] show False by (rule notE)
  qed
  with pos have "n = 1" by simp
  with run show ?thesis by simp
qed

lemma retry_exhausted:
  assumes all4: "\<forall>k. k < 4 \<longrightarrow> (\<exists>e. operation k = Inl e \<and> isTransient e)"
  shows "retryOperation_default operation = (operation 3, 4, [1000, 2000, 4000])"
proof -
  from retry_default_run [of operation] obtain n where
    all: "retryOperation_default operation
          = (operation (n - 1), n, take (n - 1) [1000, 2000, 4000])
      \<and> 1 \<le> n \<and> n \<le> 4
      \<and> (\<forall>k. k < n - 1 \<longrightarrow> (\<exists>e. operation k = Inl e \<and> isTransient e))
      \<and> ((\<exists>v. operation (n - 1) = Inr v)
          \<or> (\<exists>e. operation (n - 1) = Inl e \<and> \<not> isTransient e)
          \<or> n = 4)" ..
  note run = all [THEN conjunct1]
  note pos = all [THEN conjunct2, THEN conjunct1]
  note le = all [THEN conjunct2, THEN conjunct2, THEN conjunct1]
  note stop = all [THEN conjunct2, THEN conjunct2, THEN conjunct2, THEN conjunct2]
  from pos le have "n - 1 < 4" by simp
  with all4 have "\<exists>e. operation (n - 1) = Inl e \<and> isTransient e" by simp
  then obtain e where e: "operation (n - 1) = Inl e" "isTransient e" by auto
  from stop e have "n = 4" by auto
  with run show ?thesis by simp
qed

text \<open>
  C8, as stated, fails: an operation that keeps failing with a transient error is
  called four times, once and then three retries, not three times in total.
\<close>

theorem retry_attempts_counterexample:
  "retryOperation_default always_overloaded = (Inl err_overloaded, 4, [1000, 2000, 4000])
   \<and> \<not> fst (snd (retryOperation_default always_overloaded)) \<le> 3"
proof -
  have "\<forall>k. k < 4 \<longrightarrow> (\<exists>e. always_overloaded k = Inl e \<and> isTransient e)"
    by (simp add: always_overloaded_def isTransient_def err_overloaded_def)
  then have "retryOperation_default always_overloaded
      = (always_overloaded 3, 4, [1000, 2000, 4000])"
    by (rule retry_exhausted)
  then show ?thesis by (simp add: always_overloaded_def)
qed

text \<open>
  C8, amended. A call is retried after a transient error (status or code 503 or 500,
  or a message that contains ``overloaded'') with the delays 1 s, 2 s, 4 s, each the
  double of the one before, for up to 3 retries, that is 4 attempts in total; the
  outcome is that of the last attempt. An error that is not transient propagates at
  once, without a retry or a delay, and so does a success.
\<close>

theorem retry_backoff:
  "(\<exists>n. retryOperation_default operation
          = (operation (n - 1), n, take (n - 1) [1000, 2000, 4000])
      \<and> 1 \<le> n \<and> n \<le> 4
      \<and> (\<forall>k. k < n - 1 \<longrightarrow> (\<exists>e. operation k = Inl e \<and> isTransient e))
      \<and> ((\<exists>v. operation (n - 1) = Inr v)
          \<or> (\<exists>e. operation (n - 1) = Inl e \<and> \<not> isTransient e)
          \<or> n = 4))
   \<and> (\<forall>e. operation 0 = Inl e \<and> \<not> isTransient e \<longrightarrow>
         retryOperation_default operation = (Inl e, 1, []))
   \<and> (\<forall>v. operation 0 = Inr v \<longrightarrow> retryOperation_default operation = (Inr v, 1, []))
   \<and> ((\<forall>k. k < 4 \<longrightarrow> (\<exists>e. operation k = Inl e \<and> isTransient e)) \<longrightarrow>
         retryOperation_default operation = (operation 3, 4, [1000, 2000, 4000]))"
proof -
  have nontransient: "retryOperation_default operation = (Inl e, 1, [])"
    if "operation 0 = Inl e \<and> \<not> isTransient e" for e
    using retry_first_only [of operation] that by auto
  have success: "retryOperation_default operation = (Inr v, 1, [])"
    if "operation 0 = Inr v" for v
    using retry_first_only [of operation] that by auto
  show ?thesis
  proof (intro conjI allI impI)
    show "\<exists>n. retryOperation_default operation
          = (operation (n - 1), n, take (n - 1) [1000, 2000, 4000])
      \<and> 1 \<le> n \<and> n \<le> 4
      \<and> (\<forall>k. k < n - 1 \<longrightarrow> (\<exists>e. operation k = Inl e \<and> isTransient e))
      \<and> ((\<exists>v. operation (n - 1) = Inr v)
          \<or> (\<exists>e. operation (n - 1) = Inl e \<and> \<not> isTransient e)
          \<or> n = 4)"
      by (rule retry_default_run)
  next
    fix e assume "operation 0 = Inl e \<and> \<not> isTransient e"
    then show "retryOperation_default operation = (Inl e, 1, [])" by (rule nontransient)
  next
    fix v assume "operation 0 = Inr v"
    then show "retryOperation_default operation = (Inr v, 1, [])" by (rule success)
  next
    assume "\<forall>k. k < 4 \<longrightarrow> (\<exists>e. operation k = Inl e \<and> isTransient e)"
    then show "retryOperation_default operation = (operation 3, 4, [1000, 2000, 4000])"
      by (rule retry_exhausted)
  qed
qed

theorem retry_backoff_witness:
  "always_bad_request 0 = Inl err_bad_request \<and> \<not> isTransient err_bad_request
   \<and> retryOperation_default always_bad_request = (Inl err_bad_request, 1, [])
   \<and> always_overloaded 3 = Inl err_overloaded \<and> isTransient err_overloaded
   \<and> retryOperation_default always_overloaded = (Inl err_overloaded, 4, [1000, 2000, 4000])"
proof -
  have bad: "always_bad_request 0 = Inl err_bad_request \<and> \<not> isTransient err_bad_request"
    by (simp add: always_bad_request_def isTransient_def err_bad_request_def)
  have all: "\<forall>k. k < 4 \<longrightarrow> (\<exists>e. always_overloaded k = Inl e \<and> isTransient e)"
    by (simp add: always_overloaded_def isTransient_def err_overloaded_def)
  note r1 = retry_backoff [of always_bad_request, THEN conjunct2, THEN conjunct1,
      rule_format, OF bad]
  note r2 = retry_backoff [of always_overloaded, THEN conjunct2, THEN conjunct2,
      THEN conjunct2, rule_format, OF all [rule_format]]
  have "isTransient err_overloaded"
    by (simp add: isTransient_def err_overloaded_def)
  with bad r1 r2 show ?thesis
    by (simp add: always_overloaded_def)
qed

subsection \<open>Editing the frame offsets\<close>

lemma frame_offset_handleNudge:
  "frame_offset (handleNudge config index dx dy) index
     = (fst (frame_offset config index) + dx, snd (frame_offset config index) + dy)"
  by (simp add: frame_offset_def handleNudge_def Let_def)

lemma handleReset_handleNudge:
  "frameOffsets config index = None \<Longrightarrow>
   handleResetOffset (handleNudge config index dx dy) index = config"
  by (simp add: handleResetOffset_def handleNudge_def fun_upd_idem Let_def)

lemma modal_same:
  "updateFrameOffset config index dx dy = handleNudge config index dx dy"
  "resetFrameOffset config index = handleResetOffset config index"
  by (simp_all add: updateFrameOffset_def handleNudge_def resetFrameOffset_def
      handleResetOffset_def Let_def)

text \<open>
  C6. A nudge adds \<open>(dx, dy)\<close> to the frame's offset, an absent entry counting as
  \<open>(0, 0)\<close>, so nudges accumulate, and leaves the other frames' entries alone; a reset
  removes the entry. Nudging a frame that has no entry and then resetting it gives the
  configuration back, so the exporter and the preview player produce what they produce
  for the frame that was never modified. The modal editor's operations are the same.
\<close>

theorem offset_nudge_reset:
  "frame_offset (handleNudge config index dx dy) index
     = (fst (frame_offset config index) + dx, snd (frame_offset config index) + dy)
   \<and> (frameOffsets config index = None \<longrightarrow>
         frame_offset (handleNudge config index dx dy) index = (dx, dy))
   \<and> frame_offset (handleNudge (handleNudge config index dx dy) index dx' dy') index
       = (fst (frame_offset config index) + dx + dx',
          snd (frame_offset config index) + dy + dy')
   \<and> (\<forall>j. j \<noteq> index \<longrightarrow>
         frameOffsets (handleNudge config index dx dy) j = frameOffsets config j)
   \<and> frameOffsets (handleResetOffset config index) index = None
   \<and> frame_offset (handleResetOffset config index) index = (0, 0)
   \<and> (frameOffsets config index = None \<longrightarrow>
         handleResetOffset (handleNudge config index dx dy) index = config
         \<and> render_frame paint img (handleResetOffset (handleNudge config index dx dy) index)
               fw fh canvas index
             = render_frame paint img config fw fh canvas index
         \<and> preview_frame paint mix img compareImg showCompare sliderPos
               (handleResetOffset (handleNudge config index dx dy) index) dimensions index
             = preview_frame paint mix img compareImg showCompare sliderPos config
                 dimensions index)
   \<and> composite_frame paint img (handleResetOffset (handleNudge config index dx dy) index)
         fw fh canvas index
       = composite_frame paint img (handleResetOffset config index) fw fh canvas index
   \<and> updateFrameOffset config index dx dy = handleNudge config index dx dy
   \<and> resetFrameOffset config index = handleResetOffset config index"
proof -
  have acc: "frame_offset (handleNudge (handleNudge config index dx dy) index dx' dy') index
       = (fst (frame_offset config index) + dx + dx',
          snd (frame_offset config index) + dy + dy')"
    by (simp add: frame_offset_handleNudge)
  have others: "\<forall>j. j \<noteq> index \<longrightarrow>
         frameOffsets (handleNudge config index dx dy) j = frameOffsets config j"
    by (simp add: handleNudge_def Let_def)
  have fresh: "frameOffsets config index = None \<longrightarrow>
         frame_offset (handleNudge config index dx dy) index = (dx, dy)"
    by (simp add: frame_offset_handleNudge) (simp add: frame_offset_def)
  have reset: "frameOffsets (handleResetOffset config index) index = None"
    "frame_offset (handleResetOffset config index) index = (0, 0)"
    by (simp_all add: handleResetOffset_def frame_offset_def Let_def)
  have same: "handleResetOffset (handleNudge config index dx dy) index
      = handleResetOffset config index"
    by (simp add: handleResetOffset_def handleNudge_def Let_def)
  have comp: "composite_frame paint img (handleResetOffset (handleNudge config index dx dy) index)
         fw fh canvas index
       = composite_frame paint img (handleResetOffset config index) fw fh canvas index"
    by (simp only: same)
  have rt: "frameOffsets config index = None \<longrightarrow>
         handleResetOffset (handleNudge config index dx dy) index = config
         \<and> render_frame paint img (handleResetOffset (handleNudge config index dx dy) index)
               fw fh canvas index
             = render_frame paint img config fw fh canvas index
         \<and> preview_frame paint mix img compareImg showCompare sliderPos
               (handleResetOffset (handleNudge config index dx dy) index) dimensions index
             = preview_frame paint mix img compareImg showCompare sliderPos config
                 dimensions index"
    by (simp add: handleReset_handleNudge)
  from frame_offset_handleNudge [of config index dx dy] fresh acc others reset rt comp
    modal_same(1) [of config index dx dy] modal_same(2) [of config index]
  show ?thesis by (intro conjI)
qed

theorem offset_nudge_reset_witness:
  "frameOffsets demo_config 0 = None
   \<and> frame_offset (handleNudge demo_config 0 5 0) 0 = (5, 0)
   \<and> handleResetOffset (handleNudge demo_config 0 5 0) 0 = demo_config
   \<and> (1::int) \<noteq> 0
   \<and> frameOffsets (handleNudge nudged_config 0 5 0) 1 = Some (2, - 1)
   \<and> frame_offset (handleNudge nudged_config 1 1 1) 1 = (3, 0)"
proof -
  have none: "frameOffsets demo_config 0 = None"
    by (simp add: demo_config_def INITIAL_CONFIG_def)
  have n1: "frameOffsets nudged_config 1 = Some (2, - 1)"
    by (simp add: nudged_config_def)
  note t = offset_nudge_reset [of demo_config 0 5 0 0 0 nearest_paint demo_image 2 2
      "set_canvas_size 2 2" half_mix NoCompare False 50 demo_dimensions]
  note t' = offset_nudge_reset [of nudged_config 0 5 0 0 0 nearest_paint demo_image 2 2
      "set_canvas_size 2 2" half_mix NoCompare False 50 demo_dimensions]
  note t'' = offset_nudge_reset [of nudged_config 1 1 1 0 0 nearest_paint demo_image 2 2
      "set_canvas_size 2 2" half_mix NoCompare False 50 demo_dimensions]
  from t [THEN conjunct2, THEN conjunct1] none
  have a: "frame_offset (handleNudge demo_config 0 5 0) 0 = (5, 0)"
    by (rule mp)
  from t [THEN conjunct2, THEN conjunct2, THEN conjunct2, THEN conjunct2, THEN conjunct2,
      THEN conjunct2, THEN conjunct1] none
  have b: "handleResetOffset (handleNudge demo_config 0 5 0) 0 = demo_config"
    by simp
  from t' [THEN conjunct2, THEN conjunct2, THEN conjunct2, THEN conjunct1] n1
  have c: "frameOffsets (handleNudge nudged_config 0 5 0) 1 = Some (2, - 1)"
    by simp
  from t'' [THEN conjunct1] n1
  have d: "frame_offset (handleNudge nudged_config 1 1 1) 1 = (3, 0)"
    by (simp add: frame_offset_def)
  from none a b c d show ?thesis by simp
qed

subsection \<open>Compositing a frame\<close>

lemma clearRect_simps [simp]:
  "cv_width (clearRect canvas) = cv_width canvas"
  "cv_height (clearRect canvas) = cv_height canvas"
  "length (cv_pixels (clearRect canvas)) = length (cv_pixels canvas)"
  "p < length (cv_pixels canvas) \<Longrightarrow> cv_pixels (clearRect canvas) ! p = transparent_black"
  by (simp_all add: clearRect_def)

lemma fillRect_white_simps [simp]:
  "cv_width (fillRect_white canvas) = cv_width canvas"
  "cv_height (fillRect_white canvas) = cv_height canvas"
  "length (cv_pixels (fillRect_white canvas)) = length (cv_pixels canvas)"
  "p < length (cv_pixels canvas) \<Longrightarrow> cv_pixels (fillRect_white canvas) ! p = white"
  by (simp_all add: fillRect_white_def)

lemma drawImage_size [simp]:
  "cv_width (drawImage paint img sx sy sw sh canvas) = cv_width canvas"
  "cv_height (drawImage paint img sx sy sw sh canvas) = cv_height canvas"
  "length (cv_pixels (drawImage paint img sx sy sw sh canvas)) = length (cv_pixels canvas)"
  by (simp_all add: drawImage_def)


lemma composite_frame_size [simp]:
  "cv_width (composite_frame paint img config fw fh canvas index) = cv_width canvas"
  "cv_height (composite_frame paint img config fw fh canvas index) = cv_height canvas"
  "length (cv_pixels (composite_frame paint img config fw fh canvas index))
     = length (cv_pixels canvas)"
  by (simp_all add: composite_frame_def Let_def split: option.splits)

lemma set_canvas_size_simps [simp]:
  "cv_width (set_canvas_size w h) = canvas_dim w"
  "cv_height (set_canvas_size w h) = canvas_dim h"
  "length (cv_pixels (set_canvas_size w h)) = canvas_dim w * canvas_dim h"
  by (simp_all add: set_canvas_size_def)







lemma coverage_inside: "a \<le> of_nat x \<and> of_nat x + 1 \<le> b \<Longrightarrow> 1 \<le> coverage x a b"
  by (auto simp add: coverage_def)


lemma covered_inside: "1 \<le> c \<Longrightarrow> covered mix c new old = new"
  by (simp add: covered_def)

lemma fillRect_band_simps [simp]:
  "cv_width (fillRect_band mix colour a b canvas) = cv_width canvas"
  "cv_height (fillRect_band mix colour a b canvas) = cv_height canvas"
  "length (cv_pixels (fillRect_band mix colour a b canvas)) = length (cv_pixels canvas)"
  by (simp_all add: fillRect_band_def)

lemma clip_band_simps [simp]:
  "cv_width (clip_band mix a b drawn canvas) = cv_width canvas"
  "cv_height (clip_band mix a b drawn canvas) = cv_height canvas"
  "length (cv_pixels (clip_band mix a b drawn canvas)) = length (cv_pixels canvas)"
  by (simp_all add: clip_band_def)



lemma preview_frame_size [simp]:
  "cv_width (preview_frame paint mix img compareImg showCompare sliderPos config dimensions
      index) = canvas_dim (of_nat (width dimensions) / of_int (cols config))"
  "cv_height (preview_frame paint mix img compareImg showCompare sliderPos config dimensions
      index) = canvas_dim (of_nat (height dimensions) / of_int (rows config))"
  "length (cv_pixels (preview_frame paint mix img compareImg showCompare sliderPos config
      dimensions index))
     = canvas_dim (of_nat (width dimensions) / of_int (cols config))
       * canvas_dim (of_nat (height dimensions) / of_int (rows config))"
  by (simp_all add: preview_frame_def Let_def split: option.splits compare_image.splits)












subsection \<open>Size of the exported frames\<close>

lemma length_getImageData: "length (getImageData canvas) = 4 * length (cv_pixels canvas)"
proof -
  have "length (concat (map (\<lambda>(r, g, b, a). [r, g, b, a]) ps)) = 4 * length ps"
    for ps :: "pixel list"
    by (induction ps) auto
  then show ?thesis by (simp add: getImageData_def)
qed

lemma length_pixels_of: "length (pixels_of data) = length data div 4"
  by (induction data rule: pixels_of.induct) simp_all

lemma render_frame_sizes:
  assumes "render_frame paint img config fw fh canvas index = Inr (canvas', sub)"
  shows "cv_width canvas' = cv_width canvas" and "cv_height canvas' = cv_height canvas"
    and "length (cv_pixels canvas') = length (cv_pixels canvas)"
    and "frame_width sub = cv_width canvas" and "frame_height sub = cv_height canvas"
    and "length (frame_data sub) = 4 * length (cv_pixels canvas)"
  using assms
  by (auto simp add: render_frame_def applyChromaKey_def addFrame_def putImageData_def Let_def
      composite_frame_def drawImage_def clearRect_def fillRect_white_def
      length_getImageData length_pixels_of applyChromaKey_data_def
      split: if_splits option.splits)

lemma render_frames_sizes:
  assumes "render_frames paint img config fw fh frames canvas subs = (subs', err)"
    and "\<forall>s \<in> set subs. frame_width s = cv_width canvas \<and> frame_height s = cv_height canvas
            \<and> length (frame_data s) = 4 * length (cv_pixels canvas)"
  shows "\<forall>s \<in> set subs'. frame_width s = cv_width canvas \<and> frame_height s = cv_height canvas
            \<and> length (frame_data s) = 4 * length (cv_pixels canvas)"
  using assms
proof (induction frames arbitrary: canvas subs)
  case Nil
  then show ?case by simp
next
  case (Cons index rest)
  show ?case
  proof (cases "render_frame paint img config fw fh canvas index")
    case (Inl e)
    with Cons.prems show ?thesis by simp
  next
    case (Inr r)
    obtain canvas' sub where r: "r = (canvas', sub)" by (cases r)
    from Inr r have rf: "render_frame paint img config fw fh canvas index = Inr (canvas', sub)"
      by simp
    note sz = render_frame_sizes [OF rf]
    from Cons.prems(1) rf
    have run: "render_frames paint img config fw fh rest canvas' (subs @ [sub]) = (subs', err)"
      by simp
    have "\<forall>s \<in> set (subs @ [sub]). frame_width s = cv_width canvas'
            \<and> frame_height s = cv_height canvas'
            \<and> length (frame_data s) = 4 * length (cv_pixels canvas')"
      using Cons.prems(2) sz by simp
    from Cons.IH [OF run this] sz(1,2,3) show ?thesis by simp
  qed
qed

lemma generateGif_frame_sizes:
  assumes "s \<in> set (fst (generateGif paint worker_ok ctx_ok img config dimensions))"
  shows "frame_width s = canvas_dim (of_nat (width dimensions) / of_int (cols config))"
    and "frame_height s = canvas_dim (of_nat (height dimensions) / of_int (rows config))"
    and "length (frame_data s) = 4 * (frame_width s * frame_height s)"
proof -
  let ?fw = "of_nat (width dimensions) / of_int (cols config) :: rat"
  let ?fh = "of_nat (height dimensions) / of_int (rows config) :: rat"
  obtain subs err where run: "render_frames paint img config ?fw ?fh (framesToRender config)
      (set_canvas_size ?fw ?fh) [] = (subs, err)"
    by (cases "render_frames paint img config ?fw ?fh (framesToRender config)
      (set_canvas_size ?fw ?fh) []")
  from render_frames_sizes [OF run]
  have sz: "\<forall>s \<in> set subs. frame_width s = cv_width (set_canvas_size ?fw ?fh)
      \<and> frame_height s = cv_height (set_canvas_size ?fw ?fh)
      \<and> length (frame_data s) = 4 * length (cv_pixels (set_canvas_size ?fw ?fh))"
    by simp
  from assms have "s \<in> set subs"
    using run by (cases err) (auto simp add: generateGif_def Let_def split: if_splits)
  with sz have "frame_width s = cv_width (set_canvas_size ?fw ?fh)
      \<and> frame_height s = cv_height (set_canvas_size ?fw ?fh)
      \<and> length (frame_data s) = 4 * length (cv_pixels (set_canvas_size ?fw ?fh))"
    by blast
  then show "frame_width s = canvas_dim ?fw" and "frame_height s = canvas_dim ?fh"
    and "length (frame_data s) = 4 * (frame_width s * frame_height s)"
    by (simp_all add: set_canvas_size_def)
qed

lemma canvas_dim_cell:
  assumes "1 \<le> c"
  shows "canvas_dim (of_nat w / of_int c) = w div nat c"
proof -
  have "\<lfloor>(of_nat w :: rat) / of_int c\<rfloor> = int w div c"
    using floor_divide_of_int_eq [of "int w" c, where ?'a = rat] by simp
  also from assms have "\<dots> = int (w div nat c)"
    by (simp add: zdiv_int)
  finally show ?thesis by (simp add: canvas_dim_def)
qed

lemma cell_exact_iff:
  assumes "1 \<le> c"
  shows "(of_nat (w div nat c) :: rat) = of_nat w / of_int c \<longleftrightarrow> c dvd int w"
proof
  assume eq: "(of_nat (w div nat c) :: rat) = of_nat w / of_int c"
  from assms have "(of_int c :: rat) \<noteq> 0" by simp
  with eq have "(of_nat w :: rat) = of_int c * of_nat (w div nat c)"
    by (simp add: field_simps)
  also have "\<dots> = of_int (c * int (w div nat c))" by simp
  finally have "int w = c * int (w div nat c)"
    by (metis of_int_eq_iff of_int_of_nat_eq)
  then show "c dvd int w" by (rule dvdI)
next
  assume d: "c dvd int w"
  from assms have "int (w div nat c) = int w div c" by (simp add: zdiv_int)
  then have "(of_nat (w div nat c) :: rat) = of_int (int w div c)"
    by (metis of_int_of_nat_eq)
  also from d have "\<dots> = of_int (int w) / of_int c" by (rule of_int_div)
  finally show "(of_nat (w div nat c) :: rat) = of_nat w / of_int c" by simp
qed

lemma frame_cell_scale: "frame_cell (config\<lparr>scale := s\<rparr>) index = frame_cell config index"
  by (simp add: frame_cell_def)

lemma frame_offset_scale: "frame_offset (config\<lparr>scale := s\<rparr>) index = frame_offset config index"
  by (simp add: frame_offset_def)

lemma source_rect_scale:
  "source_rect (config\<lparr>scale := s\<rparr>) fw fh index = source_rect config fw fh index"
  by (simp only: source_rect_def frame_cell_scale frame_offset_scale)

lemma composite_frame_scale:
  "composite_frame paint img (config\<lparr>scale := s\<rparr>) fw fh canvas index
     = composite_frame paint img config fw fh canvas index"
  by (simp add: composite_frame_def source_rect_scale)

lemma render_frame_scale:
  "render_frame paint img (config\<lparr>scale := s\<rparr>) fw fh canvas index
     = render_frame paint img config fw fh canvas index"
  by (simp add: render_frame_def composite_frame_scale Let_def split: sum.splits)

lemma render_frames_scale:
  "render_frames paint img (config\<lparr>scale := s\<rparr>) fw fh frames canvas subs
     = render_frames paint img config fw fh frames canvas subs"
  by (induction frames arbitrary: canvas subs)
    (auto simp add: render_frame_scale split: sum.splits)

lemma generateGif_scale:
  "generateGif paint worker_ok ctx_ok img (config\<lparr>scale := s\<rparr>) dimensions
     = generateGif paint worker_ok ctx_ok img config dimensions"
  by (simp add: generateGif_def framesToRender_filter render_frames_scale Let_def)

lemma uneven_frames: "framesToRender uneven_config = [0, 1, 2]"
  by (simp add: framesToRender_filter uneven_config_def INITIAL_CONFIG_def upto.simps)

lemma uneven_dims:
  "canvas_dim (of_nat (width uneven_dimensions) / of_int (cols uneven_config)) = 3"
  "canvas_dim (of_nat (height uneven_dimensions) / of_int (rows uneven_config)) = 10"
proof -
  have "\<lfloor>(10 :: rat) / 3\<rfloor> = 3" by (simp add: floor_eq_iff)
  then show "canvas_dim (of_nat (width uneven_dimensions) / of_int (cols uneven_config)) = 3"
    by (simp add: canvas_dim_def uneven_dimensions_def uneven_config_def INITIAL_CONFIG_def)
  show "canvas_dim (of_nat (height uneven_dimensions) / of_int (rows uneven_config)) = 10"
    by (simp add: canvas_dim_def uneven_dimensions_def uneven_config_def INITIAL_CONFIG_def)
qed

lemma narrow_dims:
  "canvas_dim (of_nat (width narrow_dimensions) / of_int (cols uneven_config)) = 0"
proof -
  have "\<lfloor>(2 :: rat) / 3\<rfloor> = 0" by (simp add: floor_eq_iff)
  then show ?thesis
    by (simp add: canvas_dim_def narrow_dimensions_def uneven_config_def INITIAL_CONFIG_def)
qed

text \<open>
  C7, as stated, fails for a fractional cell below one pixel: with an image two pixels
  wide in three columns the cells are 2/3 of a pixel wide, and the exporter rejects the
  configuration. The frame size truncates to a width of 0, and reading the pixel data of
  the first frame raises.
\<close>

theorem fractional_cell_counterexample:
  "generateGif nearest_paint True True narrow_image uneven_config narrow_dimensions
     = ([], Inl IndexSizeError)
   \<and> (of_nat (width narrow_dimensions) / of_int (cols uneven_config) :: rat) = 2 / 3
   \<and> framesToRender uneven_config = [0, 1, 2]"
proof -
  have "generateGif nearest_paint True True narrow_image uneven_config narrow_dimensions
     = ([], Inl IndexSizeError)"
    by (rule generateGif_empty) (simp_all add: uneven_frames narrow_dims)
  moreover have "(of_nat (width narrow_dimensions) / of_int (cols uneven_config) :: rat) = 2 / 3"
    by (simp add: narrow_dimensions_def uneven_config_def INITIAL_CONFIG_def)
  moreover note uneven_frames
  ultimately show ?thesis by (simp only: simp_thms)
qed

text \<open>
  C7, amended. With at least one row and one column, every frame handed to the codec is
  a buffer of \<open>floor(sourceWidth / cols)\<close> by \<open>floor(sourceHeight / rows)\<close> pixels, four
  bytes each: the canvas truncates a fractional cell size. That is exactly
  \<open>cellW x cellH\<close> when, and only when, \<open>cols\<close> divides the width and \<open>rows\<close> divides the
  height. Given the worker script, a canvas context and a frame that is not excluded,
  the export succeeds with one frame per frame to render when every cell has at least
  one pixel each way, fractional or not, and is rejected, with no frame handed over, when
  there are more columns than pixels across or more rows than pixels down. The frames do
  not depend on the \<open>scale\<close> setting, which the exporter does not read.
\<close>

theorem exported_frame_size:
  assumes "1 \<le> rows config" and "1 \<le> cols config"
  shows "(\<forall>s \<in> set (fst (generateGif paint worker_ok ctx_ok img config dimensions)).
            frame_width s = width dimensions div nat (cols config)
            \<and> frame_height s = height dimensions div nat (rows config)
            \<and> length (frame_data s) = 4 * (frame_width s * frame_height s))
       \<and> canvas_dim (of_nat (width dimensions) / of_int (cols config))
           = width dimensions div nat (cols config)
       \<and> canvas_dim (of_nat (height dimensions) / of_int (rows config))
           = height dimensions div nat (rows config)
       \<and> ((of_nat (width dimensions div nat (cols config)) :: rat)
              = of_nat (width dimensions) / of_int (cols config)
            \<longleftrightarrow> cols config dvd int (width dimensions))
       \<and> ((of_nat (height dimensions div nat (rows config)) :: rat)
              = of_nat (height dimensions) / of_int (rows config)
            \<longleftrightarrow> rows config dvd int (height dimensions))
       \<and> (worker_ok \<and> ctx_ok \<and> framesToRender config \<noteq> []
            \<and> cols config \<le> int (width dimensions) \<and> rows config \<le> int (height dimensions)
            \<longrightarrow> (\<exists>subs gif. generateGif paint worker_ok ctx_ok img config dimensions
                                = (subs, Inr (Blob gif subs))
                              \<and> length subs = length (framesToRender config)))
       \<and> (worker_ok \<and> ctx_ok \<and> framesToRender config \<noteq> []
            \<and> (int (width dimensions) < cols config \<or> int (height dimensions) < rows config)
            \<longrightarrow> generateGif paint worker_ok ctx_ok img config dimensions
                  = ([], Inl IndexSizeError))
       \<and> generateGif paint worker_ok ctx_ok img (config\<lparr>scale := s\<rparr>) dimensions
           = generateGif paint worker_ok ctx_ok img config dimensions"
proof (intro conjI ballI impI)
  fix s
  assume "s \<in> set (fst (generateGif paint worker_ok ctx_ok img config dimensions))"
  note sz = generateGif_frame_sizes [OF this]
  from sz(1) assms show "frame_width s = width dimensions div nat (cols config)"
    by (simp only: canvas_dim_cell)
  from sz(2) assms show "frame_height s = height dimensions div nat (rows config)"
    by (simp only: canvas_dim_cell)
  from sz(3) show "length (frame_data s) = 4 * (frame_width s * frame_height s)" .
next
  from assms show "canvas_dim (of_nat (width dimensions) / of_int (cols config))
      = width dimensions div nat (cols config)"
    by (simp only: canvas_dim_cell)
next
  from assms show "canvas_dim (of_nat (height dimensions) / of_int (rows config))
      = height dimensions div nat (rows config)"
    by (simp only: canvas_dim_cell)
next
  from assms(2) show "((of_nat (width dimensions div nat (cols config)) :: rat)
              = of_nat (width dimensions) / of_int (cols config))
            = (cols config dvd int (width dimensions))"
    by (rule cell_exact_iff)
next
  from assms(1) show "((of_nat (height dimensions div nat (rows config)) :: rat)
              = of_nat (height dimensions) / of_int (rows config))
            = (rows config dvd int (height dimensions))"
    by (rule cell_exact_iff)
next
  assume a: "worker_ok \<and> ctx_ok \<and> framesToRender config \<noteq> []
      \<and> cols config \<le> int (width dimensions) \<and> rows config \<le> int (height dimensions)"
  with assms have "nat (cols config) \<le> width dimensions" "0 < nat (cols config)"
    "nat (rows config) \<le> height dimensions" "0 < nat (rows config)"
    by (simp_all add: nat_le_iff)
  then have "width dimensions div nat (cols config) \<noteq> 0"
    "height dimensions div nat (rows config) \<noteq> 0"
    by (simp_all add: div_eq_0_iff)
  with assms have "canvas_dim (of_nat (width dimensions) / of_int (cols config)) \<noteq> 0
      \<and> canvas_dim (of_nat (height dimensions) / of_int (rows config)) \<noteq> 0"
    by (simp only: canvas_dim_cell) simp
  with a show "\<exists>subs gif. generateGif paint worker_ok ctx_ok img config dimensions
                                = (subs, Inr (Blob gif subs))
                              \<and> length subs = length (framesToRender config)"
    by (intro generateGif_ok) simp_all
next
  assume a: "worker_ok \<and> ctx_ok \<and> framesToRender config \<noteq> []
      \<and> (int (width dimensions) < cols config \<or> int (height dimensions) < rows config)"
  with assms have "width dimensions < nat (cols config)
      \<or> height dimensions < nat (rows config)"
    by (auto simp add: zless_nat_eq_int_zless)
  then have "width dimensions div nat (cols config) = 0
      \<or> height dimensions div nat (rows config) = 0"
    by auto
  with assms have "canvas_dim (of_nat (width dimensions) / of_int (cols config)) = 0
      \<or> canvas_dim (of_nat (height dimensions) / of_int (rows config)) = 0"
    by (simp only: canvas_dim_cell)
  with a show "generateGif paint worker_ok ctx_ok img config dimensions
      = ([], Inl IndexSizeError)"
    by (intro generateGif_empty) simp_all
next
  show "generateGif paint worker_ok ctx_ok img (config\<lparr>scale := s\<rparr>) dimensions
      = generateGif paint worker_ok ctx_ok img config dimensions"
    by (rule generateGif_scale)
qed

theorem exported_frame_size_witness:
  "1 \<le> rows uneven_config \<and> 1 \<le> cols uneven_config
   \<and> canvas_dim (of_nat (width uneven_dimensions) / of_int (cols uneven_config)) = 3
   \<and> (of_nat 3 :: rat) \<noteq> of_nat (width uneven_dimensions) / of_int (cols uneven_config)
   \<and> framesToRender uneven_config \<noteq> []
   \<and> cols uneven_config \<le> int (width uneven_dimensions)
   \<and> rows uneven_config \<le> int (height uneven_dimensions)
   \<and> (\<exists>subs gif. generateGif nearest_paint True True uneven_image uneven_config
                      uneven_dimensions = (subs, Inr (Blob gif subs))
                    \<and> length subs = 3)
   \<and> map (\<lambda>s. (frame_width s, frame_height s, length (frame_data s)))
        (fst (generateGif nearest_paint True True uneven_image uneven_config
                uneven_dimensions))
       = [(3, 10, 120), (3, 10, 120), (3, 10, 120)]"
proof -
  let ?subs = "fst (generateGif nearest_paint True True uneven_image uneven_config
    uneven_dimensions)"
  have r: "1 \<le> rows uneven_config" and c: "1 \<le> cols uneven_config"
    by (simp_all add: uneven_config_def INITIAL_CONFIG_def)
  have vals: "cols uneven_config = 3" "rows uneven_config = 1" "width uneven_dimensions = 10"
    "height uneven_dimensions = 10"
    by (simp_all add: uneven_config_def INITIAL_CONFIG_def uneven_dimensions_def)
  note t = exported_frame_size [OF r c, of nearest_paint True True uneven_image
      uneven_dimensions 2]
  from t [THEN conjunct2, THEN conjunct1]
  have w: "canvas_dim (of_nat (width uneven_dimensions) / of_int (cols uneven_config)) = 3"
    by (simp add: vals)
  have pre: "True \<and> True \<and> framesToRender uneven_config \<noteq> []
      \<and> cols uneven_config \<le> int (width uneven_dimensions)
      \<and> rows uneven_config \<le> int (height uneven_dimensions)"
    by (simp add: uneven_frames vals)
  from t [THEN conjunct2, THEN conjunct2, THEN conjunct2, THEN conjunct2, THEN conjunct2,
      THEN conjunct1, rule_format, OF pre]
  have ok: "\<exists>subs gif. generateGif nearest_paint True True uneven_image uneven_config
                      uneven_dimensions = (subs, Inr (Blob gif subs))
                    \<and> length subs = 3"
    by (simp add: uneven_frames numeral_3_eq_3)
  then have len: "length ?subs = 3" by auto
  have "(frame_width s, frame_height s, length (frame_data s)) = (3, 10, 120)"
    if "s \<in> set ?subs" for s
    using t [THEN conjunct1, rule_format, OF that] by (simp add: vals)
  then have "map (\<lambda>s. (frame_width s, frame_height s, length (frame_data s))) ?subs
      = replicate (length ?subs) (3, 10, 120)"
    by (simp add: map_replicate_const [symmetric])
  with len have frames: "map (\<lambda>s. (frame_width s, frame_height s, length (frame_data s))) ?subs
      = [(3, 10, 120), (3, 10, 120), (3, 10, 120)]"
    by (simp add: numeral_3_eq_3)
  have ne: "(of_nat 3 :: rat) \<noteq> of_nat (width uneven_dimensions) / of_int (cols uneven_config)"
    by (simp add: vals)
  from r c w ne pre ok frames show ?thesis by simp
qed

end
